theory Spec2Isabelle
  imports Main "HOL-Library.Sublist"
begin

text \<open>
  The two Lightning web components of Record Flags: the parent \<^verbatim>\<open>recordFlags\<close>, which
  fetches the catalog of fetchers and the shared record and collects the errors of its
  children into one flag, and the child \<^verbatim>\<open>recordFlagFetcher\<close>, which runs one fetcher
  and shows its flags. Each method is a function on the fields of its component; a promise
  is the call, logged as an effect, and a later event that settles it.
\<close>

section \<open>JavaScript values used by the two components\<close>

text \<open>
  A property that may be missing or \<^verbatim>\<open>null\<close>: \<open>JsUndefined\<close> is a property that
  is absent (reading it gives \<^verbatim>\<open>undefined\<close>), \<open>JsNull\<close> is \<^verbatim>\<open>null\<close>.
\<close>

datatype 'a jsopt = JsUndefined | JsNull | JsVal 'a

text \<open>Truthiness of a string-valued property: absent, null and the empty string are falsy.\<close>

fun truthy_str :: "string jsopt \<Rightarrow> bool" where
  "truthy_str (JsVal s) = (s \<noteq> [])"
| "truthy_str JsNull = False"
| "truthy_str JsUndefined = False"

text \<open>Truthiness of an object- or array-valued property: every object is truthy.\<close>

fun truthy_obj :: "'a jsopt \<Rightarrow> bool" where
  "truthy_obj (JsVal x) = True"
| "truthy_obj JsNull = False"
| "truthy_obj JsUndefined = False"

text \<open>The coercion that \<^verbatim>\<open>+\<close> applies to an operand when the other one is a string.\<close>

fun to_str :: "string jsopt \<Rightarrow> string" where
  "to_str (JsVal s) = s"
| "to_str JsNull = ''null''"
| "to_str JsUndefined = ''undefined''"

definition newline :: string where
  "newline = [CHR 0x0A]"

text \<open>\<^verbatim>\<open>String.prototype.includes\<close>: \<open>str_includes s p\<close> is \<^verbatim>\<open>s.includes(p)\<close>.\<close>

fun str_includes :: "string \<Rightarrow> string \<Rightarrow> bool" where
  "str_includes [] p = (p = [])"
| "str_includes (c # cs) p = (prefix p (c # cs) \<or> str_includes cs p)"

text \<open>The decimal text of an array index, as \<^verbatim>\<open>"key_" + index\<close> produces it.\<close>

fun show_nat :: "nat \<Rightarrow> string" where
  "show_nat n =
     (if n < 10 then [''0123456789'' ! n]
      else show_nat (n div 10) @ [''0123456789'' ! (n mod 10)])"

declare show_nat.simps [simp del]

text \<open>
  An exception or a rejection reason, as far as \<^verbatim>\<open>handleError\<close> reads it:
  \<open>output_errors\<close> holds the \<^verbatim>\<open>message\<close> of every entry of
  \<^verbatim>\<open>error.body.output.errors\<close> (empty when that path is missing) and \<open>body_message\<close> is
  \<^verbatim>\<open>error.body.message\<close>. A \<^verbatim>\<open>TypeError\<close> raised by the engine has no \<^verbatim>\<open>body\<close>.
\<close>

record js_error =
  output_errors :: "string jsopt list"
  body_message :: "string jsopt"

definition TypeError :: js_error where
  "TypeError = \<lparr>output_errors = [], body_message = JsUndefined\<rparr>"

text \<open>How a promise settles.\<close>

datatype 'a outcome = Resolved 'a | Rejected js_error

section \<open>\<^verbatim>\<open>JSON.stringify\<close>\<close>

datatype json =
    JNull
  | JBool bool
  | JString string
  | JArray "json list"
  | JObject "(string \<times> json) list"

definition hex_digit :: "nat \<Rightarrow> char" where
  "hex_digit d = ''0123456789abcdef'' ! d"

text \<open>
  The escapes of a string literal in JSON text: the double quote (code 0x22), the backslash
  (code 0x5C), the five short escapes, and \<^verbatim>\<open>\u00XX\<close> for the other control characters.
\<close>

definition escape_char :: "char \<Rightarrow> string" where
  "escape_char c =
     (if c = CHR 0x22 then [CHR 0x5C, CHR 0x22]
      else if c = CHR 0x5C then [CHR 0x5C, CHR 0x5C]
      else if c = CHR 0x08 then [CHR 0x5C, CHR ''b'']
      else if c = CHR 0x0C then [CHR 0x5C, CHR ''f'']
      else if c = CHR 0x0A then [CHR 0x5C, CHR ''n'']
      else if c = CHR 0x0D then [CHR 0x5C, CHR ''r'']
      else if c = CHR 0x09 then [CHR 0x5C, CHR ''t'']
      else if (of_char c :: nat) < 32
        then [CHR 0x5C, CHR ''u'', CHR ''0'', CHR ''0'',
              hex_digit (of_char c div 16), hex_digit (of_char c mod 16)]
      else [c])"

definition escape :: "string \<Rightarrow> string" where
  "escape s = concat (map escape_char s)"

definition quote :: "string \<Rightarrow> string" where
  "quote s = CHR 0x22 # escape s @ [CHR 0x22]"

fun join_comma :: "string list \<Rightarrow> string" where
  "join_comma [] = []"
| "join_comma [t] = t"
| "join_comma (t # u # ts) = t @ CHR '','' # join_comma (u # ts)"

fun stringify :: "json \<Rightarrow> string" where
  "stringify JNull = ''null''"
| "stringify (JBool b) = (if b then ''true'' else ''false'')"
| "stringify (JString s) = quote s"
| "stringify (JArray xs) = CHR ''['' # join_comma (map stringify xs) @ '']''"
| "stringify (JObject ps) =
     CHR ''{'' # join_comma (map (\<lambda>(k, v). quote k @ CHR '':'' # stringify v) ps) @ ''}''"

text \<open>Every property name and every string value of a JSON tree, for the lemmas below.\<close>

fun json_strings :: "json \<Rightarrow> string list" where
  "json_strings JNull = []"
| "json_strings (JBool b) = []"
| "json_strings (JString s) = [s]"
| "json_strings (JArray xs) = concat (map json_strings xs)"
| "json_strings (JObject ps) = concat (map (\<lambda>(k, v). k # json_strings v) ps)"

text \<open>
  A property of an object being serialised: an absent property is left out, a null one is
  written as \<^verbatim>\<open>null\<close>.
\<close>

definition json_prop :: "('a \<Rightarrow> json) \<Rightarrow> string \<Rightarrow> 'a jsopt \<Rightarrow> (string \<times> json) list" where
  "json_prop enc k v =
     (case v of JsUndefined \<Rightarrow> [] | JsNull \<Rightarrow> [(k, JNull)] | JsVal x \<Rightarrow> [(k, enc x)])"

text \<open>Reading the tree that \<^verbatim>\<open>JSON.parse\<close> returns: property access and the expected shapes.\<close>

definition read_prop :: "(json \<Rightarrow> 'a) \<Rightarrow> (string \<times> json) list \<Rightarrow> string \<Rightarrow> 'a jsopt" where
  "read_prop dec ps k =
     (case map_of ps k of None \<Rightarrow> JsUndefined | Some JNull \<Rightarrow> JsNull | Some j \<Rightarrow> JsVal (dec j))"

fun as_string :: "json \<Rightarrow> string" where
  "as_string (JString s) = s"
| "as_string j = []"

fun as_bool :: "json \<Rightarrow> bool" where
  "as_bool (JBool b) = b"
| "as_bool j = False"

fun as_array :: "json \<Rightarrow> json list" where
  "as_array (JArray xs) = xs"
| "as_array j = []"

fun as_object :: "json \<Rightarrow> (string \<times> json) list" where
  "as_object (JObject ps) = ps"
| "as_object j = []"

definition read_string :: "(string \<times> json) list \<Rightarrow> string \<Rightarrow> string" where
  "read_string ps k = (case map_of ps k of Some j \<Rightarrow> as_string j | None \<Rightarrow> [])"

definition read_bool :: "(string \<times> json) list \<Rightarrow> string \<Rightarrow> bool" where
  "read_bool ps k = (case map_of ps k of Some j \<Rightarrow> as_bool j | None \<Rightarrow> False)"

section \<open>Flags\<close>

text \<open>
  A button and a flag as the Apex controller returns them (README, constructors of
  \<^verbatim>\<open>RecordFlagButton\<close> and \<^verbatim>\<open>RecordFlag\<close>). The child component later gives every button
  a \<^verbatim>\<open>key\<close> property, here \<open>button_key\<close>.
\<close>

record flag_button =
  name :: string
  url :: string
  button_key :: "string jsopt"

record record_flag =
  variant :: string
  header :: string
  body :: "string jsopt"
  buttons :: "flag_button list jsopt"

text \<open>
  The object that \<^verbatim>\<open>handleRecordFlags\<close> builds: the properties of the Apex value and five
  more.
\<close>

record flag = record_flag +
  key :: string
  showDetails :: bool
  varientCSS :: "string jsopt"
  hasButtons :: bool
  isClicked :: bool

text \<open>The constant table \<^verbatim>\<open>varientCSS\<close> of the child module, as a lookup.\<close>

definition varientCSS_of :: "string \<Rightarrow> string jsopt" where
  "varientCSS_of v =
     (if v = ''NORMAL'' then JsVal ''slds-badge slds-badge_inverse''
      else if v = ''SUCCESS'' then JsVal ''slds-badge slds-theme_success''
      else if v = ''WARNING'' then JsVal ''slds-badge slds-theme_warning''
      else if v = ''ERROR'' then JsVal ''slds-badge slds-theme_error''
      else JsUndefined)"

definition button_json :: "flag_button \<Rightarrow> json" where
  "button_json b =
     JObject ([(''name'', JString (name b)), (''url'', JString (url b))]
              @ json_prop JString ''key'' (button_key b))"

definition record_flag_props :: "'a record_flag_scheme \<Rightarrow> (string \<times> json) list" where
  "record_flag_props v =
     [(''variant'', JString (variant v)), (''header'', JString (header v))]
     @ json_prop JString ''body'' (body v)
     @ json_prop (\<lambda>bs. JArray (map button_json bs)) ''buttons'' (buttons v)"

definition record_flag_json :: "record_flag \<Rightarrow> json" where
  "record_flag_json v = JObject (record_flag_props v)"

definition flag_json :: "flag \<Rightarrow> json" where
  "flag_json f =
     JObject (record_flag_props f
              @ [(''key'', JString (key f)), (''showDetails'', JBool (showDetails f))]
              @ json_prop JString ''varientCSS'' (varientCSS f)
              @ [(''hasButtons'', JBool (hasButtons f)), (''isClicked'', JBool (isClicked f))])"

definition button_of_json :: "json \<Rightarrow> flag_button" where
  "button_of_json j =
     \<lparr>name = read_string (as_object j) ''name'',
      url = read_string (as_object j) ''url'',
      button_key = read_prop as_string (as_object j) ''key''\<rparr>"

definition flag_of_json :: "json \<Rightarrow> flag" where
  "flag_of_json j =
     \<lparr>variant = read_string (as_object j) ''variant'',
      header = read_string (as_object j) ''header'',
      body = read_prop as_string (as_object j) ''body'',
      buttons = read_prop (\<lambda>a. map button_of_json (as_array a)) (as_object j) ''buttons'',
      key = read_string (as_object j) ''key'',
      showDetails = read_bool (as_object j) ''showDetails'',
      varientCSS = read_prop as_string (as_object j) ''varientCSS'',
      hasButtons = read_bool (as_object j) ''hasButtons'',
      isClicked = read_bool (as_object j) ''isClicked''\<rparr>"

text \<open>
  \<^verbatim>\<open>JSON.parse(JSON.stringify(flag))\<close>: the flag is written as a JSON tree and a new flag
  is read back from it.
\<close>

definition deep_copy :: "flag \<Rightarrow> flag" where
  "deep_copy f = flag_of_json (flag_json f)"

text \<open>The test both components apply to serialised flags.\<close>

definition Component_Error :: string where
  "Component_Error = ''Component Error''"

section \<open>Effects\<close>

text \<open>
  The shared-data record and a \<^verbatim>\<open>Record_Flag__mdt\<close> row are opaque to the JavaScript: both
  are only stored and passed on. They are identified here by a name.
\<close>

type_synonym sobject = string

type_synonym mdt = string

text \<open>What \<^verbatim>\<open>RecordFlags.getFetchers\<close> resolves with.\<close>

record catalog_result =
  fetchers :: "mdt list"
  sharedData :: "sobject jsopt"

text \<open>
  Every call that leaves a component is appended to a log kept beside its fields: the two
  Apex calls with their arguments, the events given to \<^verbatim>\<open>dispatchEvent\<close>, the console
  output and the two calls of \<^verbatim>\<open>lightning/refresh\<close>.
\<close>

datatype effect =
    Apex_getFetchers "string jsopt" "string jsopt"
  | Apex_invokeFetcher "sobject jsopt" "mdt jsopt"
  | ErrorReceive "flag list"
  | ShowToastEvent string string string
  | ConsoleLog "catalog_result jsopt"
  | RegisterRefreshHandler
  | UnregisterRefreshHandler "string jsopt"

section \<open>The child component \<^verbatim>\<open>recordFlagFetcher\<close>\<close>

text \<open>
  The fields of the class, with \<open>fetcher_effects\<close> as its log; \<open>record'\<close> is the field
  \<^verbatim>\<open>record\<close>. The public fields \<^verbatim>\<open>recordId\<close>, \<^verbatim>\<open>objectApiName\<close> and \<^verbatim>\<open>wrapper\<close> are
  read by no method and are left out.
\<close>

record RecordFlagFetcher =
  errorRecordFlag :: "flag jsopt"
  listOfRecordFlags :: "flag list"
  loading :: bool
  mdtRecord :: "mdt jsopt"
  record' :: "sobject jsopt"
  list :: "flag list"
  fetcher_effects :: "effect list"

text \<open>A component as its constructor leaves it, for given values of the public fields.\<close>

definition new_RecordFlagFetcher ::
  "flag jsopt \<Rightarrow> sobject jsopt \<Rightarrow> mdt jsopt \<Rightarrow> RecordFlagFetcher" where
  "new_RecordFlagFetcher e r m =
     \<lparr>errorRecordFlag = e, listOfRecordFlags = [], loading = True, mdtRecord = m,
      record' = r, list = [], fetcher_effects = []\<rparr>"

definition fetcher_showToast ::
  "RecordFlagFetcher \<Rightarrow> string \<Rightarrow> string \<Rightarrow> string \<Rightarrow> RecordFlagFetcher" where
  "fetcher_showToast s theTitle theMessage theVariant =
     s\<lparr>fetcher_effects := fetcher_effects s @ [ShowToastEvent theTitle theMessage theVariant]\<rparr>"

text \<open>The text that \<^verbatim>\<open>handleError\<close> builds; both components build it the same way.\<close>

definition error_text :: "js_error \<Rightarrow> string" where
  "error_text error =
     (let errorMessage = ''Something went wrong in recordFlags! '' in
      case output_errors error of
        m # ms \<Rightarrow> errorMessage @ to_str m
      | [] \<Rightarrow> if truthy_str (body_message error)
              then errorMessage @ to_str (body_message error)
              else errorMessage)"

definition fetcher_handleError :: "RecordFlagFetcher \<Rightarrow> js_error \<Rightarrow> RecordFlagFetcher" where
  "fetcher_handleError s error = fetcher_showToast s ''Error'' (error_text error) ''error''"

text \<open>
  The loop over \<^verbatim>\<open>flag.buttons\<close>. The buttons are shared between \<^verbatim>\<open>flag\<close> and
  \<^verbatim>\<open>value\<close> (the spread copies the array reference), so the keys are also in \<^verbatim>\<open>value\<close>
  when it is serialised afterwards.
\<close>

definition key_buttons :: "flag_button list \<Rightarrow> flag_button list" where
  "key_buttons bs =
     map (\<lambda>(index2, button). button\<lparr>button_key := JsVal (''button_'' @ show_nat index2)\<rparr>)
         (enumerate 0 bs)"

definition keyed :: "flag_button list jsopt \<Rightarrow> flag_button list jsopt" where
  "keyed b = (case b of JsVal bs \<Rightarrow> JsVal (key_buttons bs) | JsNull \<Rightarrow> JsNull
              | JsUndefined \<Rightarrow> JsUndefined)"

definition make_flag :: "nat \<Rightarrow> record_flag \<Rightarrow> flag" where
  "make_flag index value =
     \<lparr>variant = variant value, header = header value, body = body value,
      buttons = keyed (buttons value),
      key = ''key_'' @ show_nat index,
      showDetails = False,
      varientCSS = varientCSS_of (variant value),
      hasButtons = (if truthy_obj (buttons value) then True else False),
      isClicked = False\<rparr>"

text \<open>
  The body of the \<^verbatim>\<open>forEach\<close> callback of \<^verbatim>\<open>handleRecordFlags\<close>. The detail of the
  event is the array \<^verbatim>\<open>list\<close> itself; the log records the flags it holds when the event
  is dispatched.
\<close>

definition handle_value :: "RecordFlagFetcher \<Rightarrow> nat \<times> record_flag \<Rightarrow> RecordFlagFetcher" where
  "handle_value s iv =
     (let index = fst iv; value = snd iv;
          flag = make_flag index value;
          value = value\<lparr>buttons := keyed (buttons value)\<rparr>
      in if str_includes (stringify (record_flag_json value)) Component_Error
         then let s1 = s\<lparr>list := list s @ [flag]\<rparr>
              in s1\<lparr>fetcher_effects := fetcher_effects s1 @ [ErrorReceive (list s1)]\<rparr>
         else s\<lparr>listOfRecordFlags := listOfRecordFlags s @ [flag]\<rparr>)"

text \<open>
  \<^verbatim>\<open>handleRecordFlags\<close>. Reading \<^verbatim>\<open>length\<close> of a result that is \<^verbatim>\<open>null\<close> or
  \<^verbatim>\<open>undefined\<close> throws before anything is changed.
\<close>

definition handleRecordFlags ::
  "RecordFlagFetcher \<Rightarrow> record_flag list jsopt \<Rightarrow> js_error + RecordFlagFetcher" where
  "handleRecordFlags s data =
     (case data of
        JsVal flagData \<Rightarrow>
          Inr ((if length flagData > 0 then foldl handle_value s (enumerate 0 flagData) else s)
               \<lparr>loading := False\<rparr>)
      | JsNull \<Rightarrow> Inl TypeError
      | JsUndefined \<Rightarrow> Inl TypeError)"

text \<open>\<^verbatim>\<open>getData\<close> up to the call, and the two callbacks of its promise.\<close>

definition fetcher_getData :: "RecordFlagFetcher \<Rightarrow> RecordFlagFetcher" where
  "fetcher_getData s =
     s\<lparr>fetcher_effects := fetcher_effects s @ [Apex_invokeFetcher (record' s) (mdtRecord s)]\<rparr>"

definition fetcher_catch :: "RecordFlagFetcher \<Rightarrow> js_error \<Rightarrow> RecordFlagFetcher" where
  "fetcher_catch s error = fetcher_handleError (s\<lparr>loading := False\<rparr>) error"

definition fetcher_settled ::
  "RecordFlagFetcher \<Rightarrow> record_flag list jsopt outcome \<Rightarrow> RecordFlagFetcher" where
  "fetcher_settled s out =
     (case out of
        Resolved result \<Rightarrow>
          (case handleRecordFlags s result of
             Inr s' \<Rightarrow> s'
           | Inl error \<Rightarrow> fetcher_catch s error)
      | Rejected error \<Rightarrow> fetcher_catch s error)"

definition fetcher_connectedCallback :: "RecordFlagFetcher \<Rightarrow> RecordFlagFetcher" where
  "fetcher_connectedCallback s =
     (if truthy_obj (record' s) \<and> truthy_obj (mdtRecord s) then fetcher_getData s
      else (case errorRecordFlag s of
              JsVal e \<Rightarrow> s\<lparr>listOfRecordFlags := listOfRecordFlags s @ [deep_copy e]\<rparr>
            | JsNull \<Rightarrow> s
            | JsUndefined \<Rightarrow> s)\<lparr>loading := False\<rparr>)"

definition fetcher_haveFlags :: "RecordFlagFetcher \<Rightarrow> bool" where
  "fetcher_haveFlags s = (length (listOfRecordFlags s) > 0)"

text \<open>
  The four handlers of the template. \<open>elementKey\<close> is the attribute \<^verbatim>\<open>data-div-id\<close> of the
  element that fired (\<^verbatim>\<open>getAttribute\<close> gives \<^verbatim>\<open>null\<close> when it is missing).
\<close>

definition on_flags :: "(flag \<Rightarrow> flag) \<Rightarrow> RecordFlagFetcher \<Rightarrow> RecordFlagFetcher" where
  "on_flags g s = s\<lparr>listOfRecordFlags := map g (listOfRecordFlags s)\<rparr>"

definition handleBadgeClick :: "RecordFlagFetcher \<Rightarrow> string jsopt \<Rightarrow> RecordFlagFetcher" where
  "handleBadgeClick s elementKey =
     on_flags (\<lambda>flag.
        if JsVal (key flag) = elementKey
        then flag\<lparr>showDetails :=
                    (if \<not> truthy_str (body flag) \<and> \<not> hasButtons flag then False else True),
                  isClicked := True\<rparr>
        else flag) s"

definition handleMouseOver :: "RecordFlagFetcher \<Rightarrow> string jsopt \<Rightarrow> RecordFlagFetcher" where
  "handleMouseOver s elementKey =
     on_flags (\<lambda>flag.
        if \<not> isClicked flag \<and> JsVal (key flag) = elementKey
        then flag\<lparr>showDetails :=
                    (if \<not> truthy_str (body flag) \<and> \<not> hasButtons flag then False
                     else \<not> showDetails flag)\<rparr>
        else flag) s"

definition handleMouseOut :: "RecordFlagFetcher \<Rightarrow> string jsopt \<Rightarrow> RecordFlagFetcher" where
  "handleMouseOut s elementKey =
     on_flags (\<lambda>flag.
        if \<not> isClicked flag \<and> JsVal (key flag) = elementKey
        then flag\<lparr>showDetails :=
                    (if \<not> truthy_str (body flag) \<and> \<not> hasButtons flag then False
                     else \<not> showDetails flag)\<rparr>
        else flag) s"

definition handlePopOverCancel :: "RecordFlagFetcher \<Rightarrow> string jsopt \<Rightarrow> RecordFlagFetcher" where
  "handlePopOverCancel s elementKey =
     on_flags (\<lambda>flag.
        if JsVal (key flag) = elementKey
        then flag\<lparr>showDetails := False, isClicked := False\<rparr>
        else flag) s"

text \<open>Everything that can happen to a child component, and a run of such events.\<close>

datatype fetcher_event =
    Connected
  | Settled "record_flag list jsopt outcome"
  | BadgeClick "string jsopt"
  | MouseOver "string jsopt"
  | MouseOut "string jsopt"
  | PopOverCancel "string jsopt"

fun fetcher_step :: "RecordFlagFetcher \<Rightarrow> fetcher_event \<Rightarrow> RecordFlagFetcher" where
  "fetcher_step s Connected = fetcher_connectedCallback s"
| "fetcher_step s (Settled out) = fetcher_settled s out"
| "fetcher_step s (BadgeClick k) = handleBadgeClick s k"
| "fetcher_step s (MouseOver k) = handleMouseOver s k"
| "fetcher_step s (MouseOut k) = handleMouseOut s k"
| "fetcher_step s (PopOverCancel k) = handlePopOverCancel s k"

section \<open>The parent component \<^verbatim>\<open>recordFlags\<close>\<close>

text \<open>The fields of the class, with \<open>flags_effects\<close> as its log.\<close>

record RecordFlags =
  recordId :: "string jsopt"
  objectApiName :: "string jsopt"
  haveFlags :: bool
  haveErrors :: bool
  listOfActiveMdt :: "mdt list"
  existingFlag :: "flag list"
  sharedRecord :: "sobject jsopt"
  refreshHandlerID :: "string jsopt"
  flags_effects :: "effect list"

text \<open>
  \<open>sharedRecord\<close> is the field \<^verbatim>\<open>record\<close> of the parent. A component as its constructor
  leaves it, for given values of the two public fields:
\<close>

definition new_RecordFlags :: "string jsopt \<Rightarrow> string jsopt \<Rightarrow> RecordFlags" where
  "new_RecordFlags rid obj =
     \<lparr>recordId = rid, objectApiName = obj, haveFlags = False, haveErrors = False,
      listOfActiveMdt = [], existingFlag = [], sharedRecord = JsUndefined,
      refreshHandlerID = JsUndefined, flags_effects = []\<rparr>"

definition flags_showToast :: "RecordFlags \<Rightarrow> string \<Rightarrow> string \<Rightarrow> string \<Rightarrow> RecordFlags" where
  "flags_showToast s theTitle theMessage theVariant =
     s\<lparr>flags_effects := flags_effects s @ [ShowToastEvent theTitle theMessage theVariant]\<rparr>"

definition flags_handleError :: "RecordFlags \<Rightarrow> js_error \<Rightarrow> RecordFlags" where
  "flags_handleError s error = flags_showToast s ''Error'' (error_text error) ''error''"

text \<open>\<^verbatim>\<open>getData\<close> up to the call, and the two callbacks of its promise.\<close>

definition flags_getData :: "RecordFlags \<Rightarrow> RecordFlags" where
  "flags_getData s =
     s\<lparr>flags_effects := flags_effects s @ [Apex_getFetchers (recordId s) (objectApiName s)]\<rparr>"

definition flags_then :: "RecordFlags \<Rightarrow> catalog_result jsopt \<Rightarrow> js_error + RecordFlags" where
  "flags_then s result =
     (let s1 = s\<lparr>flags_effects := flags_effects s @ [ConsoleLog result]\<rparr> in
      case result of
        JsVal r \<Rightarrow> Inr (s1\<lparr>listOfActiveMdt := fetchers r, sharedRecord := sharedData r,
                           haveFlags := True\<rparr>)
      | JsNull \<Rightarrow> Inl TypeError
      | JsUndefined \<Rightarrow> Inl TypeError)"

definition flags_settled :: "RecordFlags \<Rightarrow> catalog_result jsopt outcome \<Rightarrow> RecordFlags" where
  "flags_settled s out =
     (case out of
        Resolved result \<Rightarrow>
          (case flags_then s result of
             Inr s' \<Rightarrow> s'
           | Inl error \<Rightarrow>
               flags_handleError (s\<lparr>flags_effects := flags_effects s @ [ConsoleLog result]\<rparr>) error)
      | Rejected error \<Rightarrow> flags_handleError s error)"

text \<open>
  \<^verbatim>\<open>connectedCallback\<close>; \<open>newID\<close> is what \<^verbatim>\<open>registerRefreshHandler\<close> returns when it is
  called.
\<close>

definition flags_connectedCallback :: "RecordFlags \<Rightarrow> string \<Rightarrow> RecordFlags" where
  "flags_connectedCallback s newID =
     (let s1 = flags_getData s in
      if \<not> truthy_str (refreshHandlerID s1)
      then s1\<lparr>refreshHandlerID := JsVal newID,
               flags_effects := flags_effects s1 @ [RegisterRefreshHandler]\<rparr>
      else s1)"

definition flags_disconnectedCallback :: "RecordFlags \<Rightarrow> RecordFlags" where
  "flags_disconnectedCallback s =
     (if truthy_str (refreshHandlerID s)
      then s\<lparr>flags_effects := flags_effects s @ [UnregisterRefreshHandler (refreshHandlerID s)]\<rparr>
      else s)"

text \<open>\<^verbatim>\<open>handleRefresh\<close>: the promise it returns resolves with \<^verbatim>\<open>true\<close> at once.\<close>

definition handleRefresh :: "RecordFlags \<Rightarrow> RecordFlags" where
  "handleRefresh s = flags_getData s"

text \<open>
  A \<^verbatim>\<open>forEach\<close> whose callback may throw: the loop stops at the first exception.
\<close>

fun forEach :: "('s \<Rightarrow> 'a \<Rightarrow> js_error + 's) \<Rightarrow> 'a list \<Rightarrow> 's \<Rightarrow> js_error + 's" where
  "forEach f [] s = Inr s"
| "forEach f (x # xs) s = (case f s x of Inl e \<Rightarrow> Inl e | Inr s' \<Rightarrow> forEach f xs s')"

text \<open>
  The body of the \<^verbatim>\<open>forEach\<close> callback of \<^verbatim>\<open>handleChildRecordFlags\<close>. Reading
  \<^verbatim>\<open>existingFlag[0].body\<close> of an empty array would throw.

  The array keeps the object the child sent, not a copy, so the assignment to its body is
  seen by the child as well, and a later event of that child carries the flag with the
  longer body. A child flag is therefore taken with the value it has when the callback
  reaches it. (The kept object comes first in every detail that holds it, before any
  assignment of that call.)
\<close>

definition coalesce :: "RecordFlags \<Rightarrow> flag \<Rightarrow> js_error + RecordFlags" where
  "coalesce s childFlag =
     (if str_includes (stringify (JArray (map flag_json (existingFlag s)))) Component_Error
      then (case existingFlag s of
              [] \<Rightarrow> Inl TypeError
            | e # es \<Rightarrow>
                if body e \<noteq> body childFlag
                then Inr (s\<lparr>existingFlag :=
                             e\<lparr>body := JsVal (to_str (body e) @ newline @ to_str (body childFlag))\<rparr>
                             # es\<rparr>)
                else Inr s)
      else Inr (s\<lparr>existingFlag := existingFlag s @ [childFlag]\<rparr>))"

text \<open>\<^verbatim>\<open>handleChildRecordFlags\<close>, given \<^verbatim>\<open>event.detail\<close>.\<close>

definition handleChildRecordFlags :: "RecordFlags \<Rightarrow> flag list \<Rightarrow> js_error + RecordFlags" where
  "handleChildRecordFlags s flagData =
     (if length flagData > 0
      then (case forEach coalesce flagData s of
              Inl e \<Rightarrow> Inl e
            | Inr s' \<Rightarrow> Inr (s'\<lparr>haveErrors := True\<rparr>))
      else Inr s)"

text \<open>Everything that can happen to the parent component, and a run of such events.\<close>

datatype flags_event =
    FlagsConnected string
  | FlagsDisconnected
  | Refresh
  | CatalogSettled "catalog_result jsopt outcome"
  | ChildErrors "flag list"

fun flags_step :: "RecordFlags \<Rightarrow> flags_event \<Rightarrow> js_error + RecordFlags" where
  "flags_step s (FlagsConnected newID) = Inr (flags_connectedCallback s newID)"
| "flags_step s FlagsDisconnected = Inr (flags_disconnectedCallback s)"
| "flags_step s Refresh = Inr (handleRefresh s)"
| "flags_step s (CatalogSettled out) = Inr (flags_settled s out)"
| "flags_step s (ChildErrors detail) = handleChildRecordFlags s detail"

section \<open>Notions used in the statements\<close>

text \<open>
  A pattern that can only occur inside a string literal of JSON text: it is not empty, holds
  none of the characters that delimit tokens, and is part of none of the three keywords.
\<close>

definition plain :: "string \<Rightarrow> bool" where
  "plain p \<longleftrightarrow> p \<noteq> [] \<and> set p \<inter> set [CHR 0x22, CHR '','', CHR '':'', CHR ''['', CHR '']'', CHR ''{'', CHR ''}''] = {}
     \<and> \<not> sublist p ''null'' \<and> \<not> sublist p ''true'' \<and> \<not> sublist p ''false''"

text \<open>
  The test of the \<^verbatim>\<open>forEach\<close> callback of \<^verbatim>\<open>handleRecordFlags\<close>, on the value as it
  is when the test runs (the buttons have their keys).
\<close>

definition routed_to_parent :: "record_flag \<Rightarrow> bool" where
  "routed_to_parent value \<longleftrightarrow>
     str_includes (stringify (record_flag_json (value\<lparr>buttons := keyed (buttons value)\<rparr>)))
       Component_Error"

text \<open>
  The events sent while the flags \<open>fs\<close> are pushed one by one onto a list that holds
  \<open>acc\<close>: each event carries the whole list as it is after the push.
\<close>

fun error_events :: "flag list \<Rightarrow> flag list \<Rightarrow> effect list" where
  "error_events acc [] = []"
| "error_events acc (f # fs) = ErrorReceive (acc @ [f]) # error_events (acc @ [f]) fs"

text \<open>The flag built for an entry of the result, given with its index.\<close>

definition built :: "nat \<times> record_flag \<Rightarrow> flag" where
  "built iv = make_flag (fst iv) (snd iv)"

text \<open>A flag whose own JSON text holds the marker.\<close>

definition is_failure_flag :: "flag \<Rightarrow> bool" where
  "is_failure_flag f \<longleftrightarrow> str_includes (stringify (flag_json f)) Component_Error"

text \<open>Two values of the kind the README describes: a warning flag and an error flag.\<close>

definition example_warning :: record_flag where
  "example_warning =
     \<lparr>variant = ''WARNING'', header = ''Open Opportunities'',
      body = JsVal ''Acme has 2 open opportunities'', buttons = JsUndefined\<rparr>"

definition example_error :: record_flag where
  "example_error =
     \<lparr>variant = ''ERROR'', header = ''Component Error'',
      body = JsVal ''Attempt to de-reference a null object'', buttons = JsUndefined\<rparr>"

text \<open>The condition of \<^verbatim>\<open>connectedCallback\<close>, and the events on which a child reports.\<close>

definition has_inputs :: "RecordFlagFetcher \<Rightarrow> bool" where
  "has_inputs s \<longleftrightarrow> truthy_obj (record' s) \<and> truthy_obj (mdtRecord s)"

fun reports :: "RecordFlagFetcher \<Rightarrow> fetcher_event \<Rightarrow> bool" where
  "reports s Connected = (\<not> has_inputs s)"
| "reports s (Settled out) = True"
| "reports s (BadgeClick k) = False"
| "reports s (MouseOver k) = False"
| "reports s (MouseOut k) = False"
| "reports s (PopOverCancel k) = False"

text \<open>A flag as the parent hands it to the child that shows the coalesced error.\<close>

definition example_coalesced :: flag where
  "example_coalesced = (make_flag 0 example_error)"

text \<open>
  The body of the coalesced flag after one more child flag, whose body is \<open>c\<close>, has been
  handled.
\<close>

definition step_body :: "string jsopt \<Rightarrow> string jsopt \<Rightarrow> string jsopt" where
  "step_body b c = (if b \<noteq> c then JsVal (to_str b @ newline @ to_str c) else b)"

text \<open>A run of events of the parent, stopped by the first exception.\<close>

definition flags_run :: "RecordFlags \<Rightarrow> flags_event list \<Rightarrow> js_error + RecordFlags" where
  "flags_run s evs = forEach flags_step evs s"

text \<open>The child flags that a run of events delivers to \<^verbatim>\<open>handleChildRecordFlags\<close>.\<close>

fun detail_of :: "flags_event \<Rightarrow> flag list" where
  "detail_of (ChildErrors d) = d"
| "detail_of (FlagsConnected newID) = []"
| "detail_of FlagsDisconnected = []"
| "detail_of Refresh = []"
| "detail_of (CatalogSettled out) = []"

definition delivered :: "flags_event list \<Rightarrow> flag list" where
  "delivered evs = concat (map detail_of evs)"

text \<open>
  \<open>grown e e'\<close>: the flag \<open>e'\<close> is \<open>e\<close> except for its body, which is the body of \<open>e\<close> or a
  text that starts with it.
\<close>

definition grown :: "flag \<Rightarrow> flag \<Rightarrow> bool" where
  "grown e e' \<longleftrightarrow>
     e' = e\<lparr>body := body e'\<rparr>
     \<and> (body e' = body e
        \<or> (case body e' of JsVal t \<Rightarrow> prefix (to_str (body e)) t | JsNull \<Rightarrow> False
            | JsUndefined \<Rightarrow> False))"

text \<open>Texts joined by newlines.\<close>

fun join_newline :: "string list \<Rightarrow> string" where
  "join_newline [] = []"
| "join_newline [t] = t"
| "join_newline (t # u # ts) = t @ newline @ join_newline (u # ts)"

text \<open>One more error flag, with another reason.\<close>

definition limit_error :: record_flag where
  "limit_error =
     \<lparr>variant = ''ERROR'', header = ''Component Error'',
      body = JsVal ''Too many SOQL queries: 101'', buttons = JsUndefined\<rparr>"

text \<open>
  Modelled from the spec: the template of the parent component is not among the sources.
  Following the specification (the orchestrator fans out one invocation for each eligible
  unit, in catalog order, and hands the one shared payload to every unit) and the README
  (one child \<^verbatim>\<open>recordFlagFetcher\<close> for each fetcher), the parent shows one child for
  each entry of \<^verbatim>\<open>listOfActiveMdt\<close>, in that order, created with the parent's \<^verbatim>\<open>record\<close>
  and the entry, and connected at once.
\<close>

definition render_children :: "RecordFlags \<Rightarrow> RecordFlagFetcher list" where
  "render_children p =
     map (\<lambda>m. fetcher_connectedCallback (new_RecordFlagFetcher JsUndefined (sharedRecord p) (JsVal m)))
         (listOfActiveMdt p)"

text \<open>The parent fields that a catalog result or a refresh can change, set all at once.\<close>

definition with_run ::
  "mdt list \<Rightarrow> sobject jsopt \<Rightarrow> bool \<Rightarrow> effect list \<Rightarrow> RecordFlags \<Rightarrow> RecordFlags" where
  "with_run l d h es s =
     s\<lparr>listOfActiveMdt := l, sharedRecord := d, haveFlags := h, flags_effects := es\<rparr>"

text \<open>Two catalog results, for two runs.\<close>

definition first_catalog :: catalog_result where
  "first_catalog = \<lparr>fetchers = [''DaysOpen'', ''OpenContactOpportunities''], sharedData = JsVal ''case v1''\<rparr>"

definition second_catalog :: catalog_result where
  "second_catalog = \<lparr>fetchers = [''DaysOpen''], sharedData = JsVal ''case v2''\<rparr>"

text \<open>
  The children of a page while their computations settle: \<open>settle_at cs (i, out)\<close> is the
  promise of child \<open>i\<close> settling with \<open>out\<close>.
\<close>

definition settle_at ::
  "RecordFlagFetcher list \<Rightarrow> nat \<times> record_flag list jsopt outcome \<Rightarrow> RecordFlagFetcher list" where
  "settle_at cs io =
     (if fst io < length cs then cs[fst io := fetcher_settled (cs ! fst io) (snd io)] else cs)"

text \<open>
  Modelled from the spec: the template of the child is not among the sources either. Each
  child shows its own \<^verbatim>\<open>listOfRecordFlags\<close> at its place among the children, so the flags
  on the page are those lists one after the other.
\<close>

definition rendered :: "RecordFlagFetcher list \<Rightarrow> flag list" where
  "rendered cs = concat (map listOfRecordFlags cs)"

text \<open>The flags a unit shows for the outcome of its computation.\<close>

definition unit_flags :: "record_flag list jsopt outcome \<Rightarrow> flag list" where
  "unit_flags out =
     (case out of
        Resolved (JsVal flagData) \<Rightarrow>
          map built (filter (\<lambda>iv. \<not> routed_to_parent (snd iv)) (enumerate 0 flagData))
      | Resolved JsNull \<Rightarrow> []
      | Resolved JsUndefined \<Rightarrow> []
      | Rejected error \<Rightarrow> [])"

text \<open>The call that fetches the catalog and the shared data.\<close>

fun is_shared_fetch :: "effect \<Rightarrow> bool" where
  "is_shared_fetch (Apex_getFetchers r n) = True"
| "is_shared_fetch (Apex_invokeFetcher d m) = False"
| "is_shared_fetch (ErrorReceive fs) = False"
| "is_shared_fetch (ShowToastEvent t m v) = False"
| "is_shared_fetch (ConsoleLog r) = False"
| "is_shared_fetch RegisterRefreshHandler = False"
| "is_shared_fetch (UnregisterRefreshHandler i) = False"

section \<open>Substrings of JSON text\<close>

lemma includes_sublist: "str_includes s p = sublist p s"
  by (induction s) (auto simp: sublist_Cons_right)

lemma sublist_sep:
  assumes "c \<notin> set p"
  shows "sublist p (u @ c # v) \<longleftrightarrow> sublist p u \<or> sublist p v"
proof
  assume "sublist p (u @ c # v)"
  then consider "sublist p u" | "sublist p (c # v)"
    | xs1 xs2 where "p = xs1 @ xs2" "suffix xs1 u" "prefix xs2 (c # v)"
    by (auto simp: sublist_append)
  then show "sublist p u \<or> sublist p v"
  proof cases
    case 1 then show ?thesis by simp
  next
    case 2
    then have "prefix p (c # v) \<or> sublist p v" by (simp add: sublist_Cons_right)
    moreover have "prefix p (c # v) \<Longrightarrow> p = []"
      using assms by (cases p) auto
    ultimately show ?thesis by auto
  next
    case 3
    have "xs2 = []" using 3(1,3) assms by (cases xs2) auto
    then show ?thesis using 3 by auto
  qed
next
  assume "sublist p u \<or> sublist p v"
  then show "sublist p (u @ c # v)"
    by (auto simp: sublist_append sublist_Cons_right)
qed

lemma sublist_join_comma:
  assumes "CHR '','' \<notin> set p" "p \<noteq> []"
  shows "sublist p (join_comma ts) \<longleftrightarrow> (\<exists>t\<in>set ts. sublist p t)"
  using assms by (induction ts rule: join_comma.induct) (auto simp: sublist_sep)

lemma sublist_quote:
  assumes "CHR 0x22 \<notin> set p" "p \<noteq> []"
  shows "sublist p (quote s) \<longleftrightarrow> sublist p (escape s)"
  using assms sublist_sep[of "CHR 0x22" p "[]" "escape s @ [CHR 0x22]"] 
     sublist_sep[of "CHR 0x22" p "escape s" "[]"]  by (simp add: quote_def)

lemma sublist_stringify:
  assumes "plain p"
  shows "sublist p (stringify j) \<longleftrightarrow> (\<exists>s\<in>set (json_strings j). sublist p (escape s))"
  using assms
proof (induction j rule: stringify.induct)
  case 1 then show ?case by (simp add: plain_def)
next
  case (2 b) then show ?case by (simp add: plain_def)
next
  case (3 s) then show ?case by (simp add: plain_def sublist_quote)
next
  case (4 xs)
  have "sublist p (stringify (JArray xs)) \<longleftrightarrow> sublist p (join_comma (map stringify xs))"
    using 4(2) sublist_sep[of "CHR ''[''" p "[]" "join_comma (map stringify xs) @ '']''"]
      sublist_sep[of "CHR '']''" p "join_comma (map stringify xs)" "[]"]
    by (simp add: plain_def)
  then show ?case using 4 by (auto simp: sublist_join_comma plain_def)
next
  case (5 ps)
  have "sublist p (stringify (JObject ps)) \<longleftrightarrow>
        sublist p (join_comma (map (\<lambda>(k, v). quote k @ CHR '':'' # stringify v) ps))"
    using 5(2) sublist_sep[of "CHR ''{''" p "[]" "join_comma (map (\<lambda>(k, v). quote k @ CHR '':'' # stringify v) ps) @ ''}''"]
      sublist_sep[of "CHR ''}''" p "join_comma (map (\<lambda>(k, v). quote k @ CHR '':'' # stringify v) ps)" "[]"]
    by (simp add: plain_def)
  then show ?case using 5
    by (fastforce simp: sublist_join_comma plain_def sublist_sep sublist_quote split: prod.splits)
qed

lemma plain_Component_Error: "plain Component_Error"
  by (simp add: plain_def Component_Error_def sublist_Cons_right)

lemma includes_stringify:
  "str_includes (stringify j) Component_Error \<longleftrightarrow>
     (\<exists>s\<in>set (json_strings j). sublist Component_Error (escape s))"
  by (simp add: includes_sublist sublist_stringify plain_Component_Error)

lemma escape_append: "escape (s @ t) = escape s @ escape t"
  by (simp add: escape_def)

lemma escape_Component_Error: "escape Component_Error = Component_Error"
  by (simp add: escape_def Component_Error_def escape_char_def)

lemma sublist_escape:
  assumes "sublist Component_Error s"
  shows "sublist Component_Error (escape s)"
proof -
  from assms obtain ps ss where "s = ps @ Component_Error @ ss" by (auto simp: sublist_def)
  then have "escape s = escape ps @ Component_Error @ escape ss"
    by (simp add: escape_append escape_Component_Error)
  then show ?thesis by (auto simp: sublist_def)
qed

lemma digit_mem: "k < 10 \<Longrightarrow> ''0123456789'' ! k \<in> set ''0123456789''"
  by (rule nth_mem) simp

lemma set_show_nat: "set (show_nat n) \<subseteq> set ''0123456789''"
proof (induction n rule: show_nat.induct)
  case (1 n)
  show ?case
  proof (cases "n < 10")
    case True
    then show ?thesis using digit_mem[of n] by (subst show_nat.simps) simp
  next
    case False
    then have "set (show_nat (n div 10)) \<subseteq> set ''0123456789''" using 1 by simp
    moreover have "''0123456789'' ! (n mod 10) \<in> set ''0123456789''" by (rule digit_mem) simp
    ultimately show ?thesis using False by (subst show_nat.simps) simp
  qed
qed

lemma escape_char_ordinary: "\<forall>c \<in> set ''0123456789button_key''. escape_char c = [c]"
  by (simp add: escape_char_def)

lemma no_C_escape:
  assumes "set s \<subseteq> set ''0123456789button_key''"
  shows "\<not> sublist Component_Error (escape s)"
proof -
  have "\<And>c. c \<in> set s \<Longrightarrow> escape_char c = [c]"
    using assms escape_char_ordinary by blast
  then have "escape s = s" unfolding escape_def
    by (induction s) auto
  moreover have "CHR ''C'' \<notin> set ''0123456789button_key''" by simp
  then have "CHR ''C'' \<notin> set s" using assms by blast
  moreover have "CHR ''C'' \<in> set Component_Error" by (simp add: Component_Error_def)
  ultimately show ?thesis
    using set_mono_sublist[of Component_Error s] by auto
qed

lemma no_C_button_key: "\<not> sublist Component_Error (escape (''button_'' @ show_nat n))"
proof (rule no_C_escape)
  have "set ''button_'' \<subseteq> set ''0123456789button_key''" by simp
  moreover have "set ''0123456789'' \<subseteq> set ''0123456789button_key''" by simp
  ultimately show "set (''button_'' @ show_nat n) \<subseteq> set ''0123456789button_key''"
    using set_show_nat[of n] unfolding set_append by blast
qed

lemma no_C_key: "\<not> sublist Component_Error (escape ''key'')"
  by (rule no_C_escape) simp

section \<open>The loop of \<^verbatim>\<open>handleRecordFlags\<close>\<close>

lemma handle_value_routed:
  "routed_to_parent (snd iv) \<Longrightarrow>
   handle_value s iv =
     s\<lparr>list := list s @ [built iv],
       fetcher_effects := fetcher_effects s @ [ErrorReceive (list s @ [built iv])]\<rparr>"
  by (simp add: handle_value_def routed_to_parent_def built_def Let_def)

lemma handle_value_rendered:
  "\<not> routed_to_parent (snd iv) \<Longrightarrow>
   handle_value s iv = s\<lparr>listOfRecordFlags := listOfRecordFlags s @ [built iv]\<rparr>"
  by (simp add: handle_value_def routed_to_parent_def built_def Let_def)

lemma foldl_handle_value:
  "foldl handle_value s ivs =
     s\<lparr>listOfRecordFlags :=
         listOfRecordFlags s @ map built (filter (\<lambda>iv. \<not> routed_to_parent (snd iv)) ivs),
       list := list s @ map built (filter (\<lambda>iv. routed_to_parent (snd iv)) ivs),
       fetcher_effects :=
         fetcher_effects s
         @ error_events (list s) (map built (filter (\<lambda>iv. routed_to_parent (snd iv)) ivs))\<rparr>"
proof (induction ivs arbitrary: s)
  case Nil
  then show ?case by simp
next
  case (Cons iv ivs)
  show ?case
  proof (cases "routed_to_parent (snd iv)")
    case True
    then show ?thesis by (simp add: Cons handle_value_routed)
  next
    case False
    then show ?thesis by (simp add: Cons handle_value_rendered)
  qed
qed

lemma error_events_take:
  "error_events acc fs =
     map (\<lambda>n. ErrorReceive (take n (acc @ fs))) [Suc (length acc)..<Suc (length (acc @ fs))]"
proof (induction fs arbitrary: acc)
  case Nil
  then show ?case by simp
next
  case (Cons f fs)
  have u: "[Suc (length acc)..<Suc (length (acc @ f # fs))] =
        Suc (length acc) # [Suc (length (acc @ [f]))..<Suc (length ((acc @ [f]) @ fs))]"
    using upt_conv_Cons[of "Suc (length acc)" "Suc (length (acc @ f # fs))"] by simp
  have t: "take (Suc (length acc)) (acc @ f # fs) = acc @ [f]"
    by simp
  have a: "(acc @ [f]) @ fs = acc @ f # fs"
    by simp
  show ?case
    unfolding error_events.simps Cons[of "acc @ [f]"] u list.map t a ..
qed

section \<open>Which values and flags carry the marker\<close>

lemma json_strings_JObject_append:
  "json_strings (JObject (ps @ qs)) = json_strings (JObject ps) @ json_strings (JObject qs)"
  by simp

lemma record_flag_props_make_flag:
  "record_flag_props (make_flag i v) = record_flag_props (v\<lparr>buttons := keyed (buttons v)\<rparr>)"
  by (simp add: record_flag_props_def make_flag_def)

lemma routed_is_failure_flag:
  assumes "routed_to_parent v"
  shows "is_failure_flag (make_flag i v)"
proof -
  from assms obtain s where
    s: "s \<in> set (json_strings (JObject (record_flag_props (v\<lparr>buttons := keyed (buttons v)\<rparr>))))"
       "sublist Component_Error (escape s)"
    unfolding routed_to_parent_def includes_stringify record_flag_json_def by blast
  have "s \<in> set (json_strings (flag_json (make_flag i v)))"
    using s(1) unfolding flag_json_def json_strings_JObject_append record_flag_props_make_flag
    by simp
  then show ?thesis
    unfolding is_failure_flag_def includes_stringify using s(2) by blast
qed

lemma header_routed:
  assumes "str_includes (header v) Component_Error"
  shows "routed_to_parent v"
proof -
  have "sublist Component_Error (escape (header v))"
    using assms by (simp add: includes_sublist sublist_escape)
  moreover have "header v \<in> set (json_strings (record_flag_json (v\<lparr>buttons := keyed (buttons v)\<rparr>)))"
    by (simp add: record_flag_json_def record_flag_props_def)
  ultimately show ?thesis
    unfolding routed_to_parent_def includes_stringify by blast
qed

lemma body_routed:
  assumes "body v = JsVal b" "str_includes b Component_Error"
  shows "routed_to_parent v"
proof -
  have "sublist Component_Error (escape b)"
    using assms by (simp add: includes_sublist sublist_escape)
  moreover have "b \<in> set (json_strings (record_flag_json (v\<lparr>buttons := keyed (buttons v)\<rparr>)))"
    using assms(1) by (simp add: record_flag_json_def record_flag_props_def json_prop_def)
  ultimately show ?thesis
    unfolding routed_to_parent_def includes_stringify by blast
qed

lemma json_strings_button_keyed:
  assumes "button_key b = JsUndefined"
  shows "(\<exists>s\<in>set (json_strings (button_json (b\<lparr>button_key := JsVal (''button_'' @ show_nat n)\<rparr>))).
            sublist Component_Error (escape s))
     \<longleftrightarrow> (\<exists>s\<in>set (json_strings (button_json b)). sublist Component_Error (escape s))"
  using assms no_C_button_key[of n] no_C_key by (auto simp: button_json_def json_prop_def)

lemma json_strings_buttons_keyed:
  assumes "\<forall>b\<in>set bs. button_key b = JsUndefined"
  shows "(\<exists>s\<in>set (json_strings (JArray (map button_json (key_buttons bs)))).
            sublist Component_Error (escape s))
     \<longleftrightarrow> (\<exists>s\<in>set (json_strings (JArray (map button_json bs))).
            sublist Component_Error (escape s))"
proof -
  have "(\<exists>s\<in>set (concat (map json_strings (map button_json
            (map (\<lambda>(index2, button). button\<lparr>button_key := JsVal (''button_'' @ show_nat index2)\<rparr>)
                 (enumerate m bs))))). sublist Component_Error (escape s))
     \<longleftrightarrow> (\<exists>s\<in>set (concat (map json_strings (map button_json bs))).
            sublist Component_Error (escape s))" for m
    using assms
  proof (induction bs arbitrary: m)
    case Nil
    then show ?case by simp
  next
    case (Cons b bs)
    then show ?case
      using json_strings_button_keyed[of b m] Cons.IH[of "Suc m"] by (simp add: bex_Un)
  qed
  then show ?thesis by (simp add: key_buttons_def)
qed

lemma routed_to_parent_as_returned:
  assumes "\<forall>bs. buttons v = JsVal bs \<longrightarrow> (\<forall>b\<in>set bs. button_key b = JsUndefined)"
  shows "routed_to_parent v \<longleftrightarrow> str_includes (stringify (record_flag_json v)) Component_Error"
proof (cases "buttons v")
  case (JsVal bs)
  then show ?thesis
    using json_strings_buttons_keyed[of bs] assms
    unfolding routed_to_parent_def includes_stringify
    by (simp add: record_flag_json_def record_flag_props_def json_prop_def keyed_def bex_Un)
next
  case JsNull
  then have "v\<lparr>buttons := keyed (buttons v)\<rparr> = v" by (simp add: keyed_def)
  then show ?thesis by (simp add: routed_to_parent_def)
next
  case JsUndefined
  then have "v\<lparr>buttons := keyed (buttons v)\<rparr> = v" by (simp add: keyed_def)
  then show ?thesis by (simp add: routed_to_parent_def)
qed

text \<open>
  Claim C9. When \<^verbatim>\<open>handleRecordFlags\<close> is given a list of values, a value goes to the parent
  exactly when its JSON text holds \<^verbatim>\<open>Component Error\<close>: the flags built from those values
  are appended to \<^verbatim>\<open>list\<close>, in order, and each push is followed by one
  \<^verbatim>\<open>errorreceive\<close> event whose detail is the whole list at that moment; the flags built
  from the other values are appended to \<^verbatim>\<open>listOfRecordFlags\<close>, in order. No flag appended
  to \<^verbatim>\<open>listOfRecordFlags\<close> has the marker in its header or in its body. For a value
  whose buttons carry no key yet, as Apex returns it, the test on the value with keyed buttons
  is the test on the JSON text of the value itself.
\<close>

theorem handleRecordFlags_routes_component_errors:
  assumes "handleRecordFlags s (JsVal flagData) = Inr s'"
  shows "listOfRecordFlags s' =
           listOfRecordFlags s
           @ map built (filter (\<lambda>iv. \<not> routed_to_parent (snd iv)) (enumerate 0 flagData))
       \<and> list s' =
           list s @ map built (filter (\<lambda>iv. routed_to_parent (snd iv)) (enumerate 0 flagData))
       \<and> fetcher_effects s' =
           fetcher_effects s
           @ map (\<lambda>n. ErrorReceive (take n (list s')))
                 [Suc (length (list s))..<Suc (length (list s'))]
       \<and> (\<forall>f\<in>set (drop (length (listOfRecordFlags s)) (listOfRecordFlags s')).
             \<not> str_includes (header f) Component_Error
             \<and> (\<forall>b. body f = JsVal b \<longrightarrow> \<not> str_includes b Component_Error))
       \<and> (\<forall>v\<in>set flagData.
             (\<forall>bs. buttons v = JsVal bs \<longrightarrow> (\<forall>b\<in>set bs. button_key b = JsUndefined)) \<longrightarrow>
             routed_to_parent v = str_includes (stringify (record_flag_json v)) Component_Error)"
proof -
  let ?ivs = "enumerate 0 flagData"
  let ?errs = "map built (filter (\<lambda>iv. routed_to_parent (snd iv)) ?ivs)"
  let ?oks = "map built (filter (\<lambda>iv. \<not> routed_to_parent (snd iv)) ?ivs)"
  have s': "s' = (foldl handle_value s ?ivs)\<lparr>loading := False\<rparr>"
    using assms by (cases flagData) (auto simp: handleRecordFlags_def)
  have rendered: "listOfRecordFlags s' = listOfRecordFlags s @ ?oks"
    unfolding s' by (subst foldl_handle_value) simp
  have sent: "list s' = list s @ ?errs"
    unfolding s' by (subst foldl_handle_value) simp
  have "fetcher_effects s' = fetcher_effects s @ error_events (list s) ?errs"
    unfolding s' by (subst foldl_handle_value) simp
  then have events: "fetcher_effects s' =
      fetcher_effects s
      @ map (\<lambda>n. ErrorReceive (take n (list s'))) [Suc (length (list s))..<Suc (length (list s'))]"
    unfolding error_events_take sent .
  have withheld: "\<not> str_includes (header f) Component_Error
      \<and> (\<forall>b. body f = JsVal b \<longrightarrow> \<not> str_includes b Component_Error)"
    if "f \<in> set (drop (length (listOfRecordFlags s)) (listOfRecordFlags s'))" for f
  proof -
    from that obtain iv where iv: "f = built iv" "\<not> routed_to_parent (snd iv)"
      unfolding rendered by auto
    have "header f = header (snd iv)" "body f = body (snd iv)"
      by (simp_all add: iv(1) built_def make_flag_def)
    then show ?thesis
      using iv(2) header_routed[of "snd iv"] body_routed[of "snd iv"] by auto
  qed
  show ?thesis
    using rendered sent events withheld routed_to_parent_as_returned by blast
qed

lemma routed_example_error: "routed_to_parent example_error"
  by (rule header_routed) (simp add: example_error_def Component_Error_def)

lemma not_routed_example_warning: "\<not> routed_to_parent example_warning"
  unfolding routed_to_parent_def includes_stringify
  by (simp add: example_warning_def record_flag_json_def record_flag_props_def json_prop_def keyed_def
        escape_def escape_char_def Component_Error_def sublist_Cons_right)

theorem handleRecordFlags_routes_component_errors_witness:
  "handleRecordFlags (new_RecordFlagFetcher JsUndefined (JsVal ''case'') (JsVal ''DaysOpen''))
     (JsVal [example_warning, example_error])
   = Inr ((new_RecordFlagFetcher JsUndefined (JsVal ''case'') (JsVal ''DaysOpen''))
            \<lparr>listOfRecordFlags := [make_flag 0 example_warning],
             loading := False,
             list := [make_flag 1 example_error],
             fetcher_effects := [ErrorReceive [make_flag 1 example_error]]\<rparr>)
   \<and> \<not> str_includes (header (make_flag 0 example_warning)) Component_Error
   \<and> routed_to_parent example_error"
proof -
  let ?s = "new_RecordFlagFetcher JsUndefined (JsVal ''case'') (JsVal ''DaysOpen'')"
  let ?s' = "?s\<lparr>listOfRecordFlags := [make_flag 0 example_warning], loading := False,
               list := [make_flag 1 example_error],
               fetcher_effects := [ErrorReceive [make_flag 1 example_error]]\<rparr>"
  have run: "handleRecordFlags ?s (JsVal [example_warning, example_error]) = Inr ?s'"
    by (simp add: handleRecordFlags_def handle_value_routed handle_value_rendered
          routed_example_error not_routed_example_warning built_def new_RecordFlagFetcher_def)
  show ?thesis
    using run handleRecordFlags_routes_component_errors[OF run] routed_example_error
    by (simp add: new_RecordFlagFetcher_def)
qed

section \<open>The copy made through JSON\<close>

lemma button_of_json_button_json: "button_of_json (button_json b) = b"
  by (cases "button_key b")
     (simp_all add: button_of_json_def button_json_def json_prop_def read_string_def read_prop_def)

lemma buttons_roundtrip: "map (button_of_json \<circ> button_json) bs = bs"
  by (induction bs) (simp_all add: button_of_json_button_json)

lemma deep_copy_same: "deep_copy f = f"
proof -
  have "flag_of_json (flag_json f) =
     \<lparr>variant = variant f, header = header f, body = body f, buttons = buttons f,
      key = key f, showDetails = showDetails f, varientCSS = varientCSS f,
      hasButtons = hasButtons f, isClicked = isClicked f\<rparr>"
    by (cases "body f"; cases "buttons f"; cases "varientCSS f")
       (simp_all add: flag_of_json_def flag_json_def record_flag_props_def json_prop_def
          read_string_def read_bool_def read_prop_def buttons_roundtrip)
  then show ?thesis by (simp add: deep_copy_def)
qed

text \<open>
  Claim C10. A child connected without both \<^verbatim>\<open>record\<close> and \<^verbatim>\<open>mdtRecord\<close> calls no
  computation (its log of effects is unchanged); when \<^verbatim>\<open>errorRecordFlag\<close> is set it appends
  exactly one copy of that flag, made through JSON and equal to it in every field, to
  \<^verbatim>\<open>listOfRecordFlags\<close>, otherwise it appends nothing; \<^verbatim>\<open>loading\<close> ends false.
\<close>

theorem connectedCallback_without_inputs:
  assumes "\<not> (truthy_obj (record' s) \<and> truthy_obj (mdtRecord s))"
  shows "fetcher_connectedCallback s =
           s\<lparr>listOfRecordFlags :=
               listOfRecordFlags s
               @ (case errorRecordFlag s of JsVal e \<Rightarrow> [deep_copy e] | JsNull \<Rightarrow> []
                  | JsUndefined \<Rightarrow> []),
             loading := False\<rparr>
       \<and> fetcher_effects (fetcher_connectedCallback s) = fetcher_effects s
       \<and> (\<forall>e. deep_copy e = e)"
  using assms
  by (cases "errorRecordFlag s") (auto simp: fetcher_connectedCallback_def deep_copy_same)

theorem connectedCallback_without_inputs_witness:
  "\<not> (truthy_obj (record' (new_RecordFlagFetcher (JsVal example_coalesced) JsUndefined JsUndefined))
       \<and> truthy_obj (mdtRecord (new_RecordFlagFetcher (JsVal example_coalesced) JsUndefined JsUndefined)))
   \<and> fetcher_connectedCallback (new_RecordFlagFetcher (JsVal example_coalesced) JsUndefined JsUndefined)
     = \<lparr>errorRecordFlag = JsVal example_coalesced, listOfRecordFlags = [example_coalesced],
        loading = False, mdtRecord = JsUndefined, record' = JsUndefined, list = [],
        fetcher_effects = []\<rparr>"
proof -
  let ?s = "new_RecordFlagFetcher (JsVal example_coalesced) JsUndefined JsUndefined"
  have h: "\<not> (truthy_obj (record' ?s) \<and> truthy_obj (mdtRecord ?s))"
    by (simp add: new_RecordFlagFetcher_def)
  show ?thesis
    using h connectedCallback_without_inputs[OF h]
    by (simp add: new_RecordFlagFetcher_def)
qed

text \<open>
  Claim C4. A result that is \<^verbatim>\<open>null\<close> or \<^verbatim>\<open>undefined\<close> makes \<^verbatim>\<open>handleRecordFlags\<close>
  throw; the \<^verbatim>\<open>catch\<close> callback of \<^verbatim>\<open>getData\<close> then sets \<^verbatim>\<open>loading\<close> to false and
  raises the error toast. An empty list only sets \<^verbatim>\<open>loading\<close> to false.
\<close>

theorem absent_result_raises_toast:
  "fetcher_settled s (Resolved JsNull) =
     s\<lparr>loading := False,
       fetcher_effects := fetcher_effects s
         @ [ShowToastEvent ''Error'' ''Something went wrong in recordFlags! '' ''error'']\<rparr>
   \<and> fetcher_settled s (Resolved JsUndefined) =
     s\<lparr>loading := False,
       fetcher_effects := fetcher_effects s
         @ [ShowToastEvent ''Error'' ''Something went wrong in recordFlags! '' ''error'']\<rparr>
   \<and> fetcher_settled s (Resolved (JsVal [])) = s\<lparr>loading := False\<rparr>"
  by (simp add: fetcher_settled_def handleRecordFlags_def fetcher_catch_def
        fetcher_handleError_def fetcher_showToast_def error_text_def TypeError_def)

section \<open>The loading indicator\<close>

lemma on_flags_fields [simp]:
  "loading (on_flags g s) = loading s"
  "record' (on_flags g s) = record' s"
  "mdtRecord (on_flags g s) = mdtRecord s"
  by (simp_all add: on_flags_def)

lemma fetcher_settled_loading: "loading (fetcher_settled s out) = False"
  by (auto simp: fetcher_settled_def handleRecordFlags_def fetcher_catch_def
        fetcher_handleError_def fetcher_showToast_def split: outcome.splits jsopt.splits sum.splits)

lemma fetcher_settled_inputs:
  "record' (fetcher_settled s out) = record' s \<and> mdtRecord (fetcher_settled s out) = mdtRecord s"
  by (auto simp: fetcher_settled_def handleRecordFlags_def fetcher_catch_def foldl_handle_value
        fetcher_handleError_def fetcher_showToast_def split: outcome.splits jsopt.splits sum.splits)

lemma fetcher_step_inputs: "has_inputs (fetcher_step s ev) = has_inputs s"
  using fetcher_settled_inputs
  by (cases ev)
     (auto simp: has_inputs_def fetcher_connectedCallback_def fetcher_getData_def
        handleBadgeClick_def handleMouseOver_def handleMouseOut_def handlePopOverCancel_def
        split: jsopt.splits)

lemma fetcher_step_loading: "loading (fetcher_step s ev) = (loading s \<and> \<not> reports s ev)"
  by (cases ev)
     (auto simp: fetcher_settled_loading has_inputs_def fetcher_connectedCallback_def
        fetcher_getData_def handleBadgeClick_def handleMouseOver_def handleMouseOut_def
        handlePopOverCancel_def split: jsopt.splits)

lemma reports_step: "reports (fetcher_step s ev) ev' = reports s ev'"
  by (cases ev') (simp_all add: fetcher_step_inputs)

text \<open>
  Claim C6. A new child has \<^verbatim>\<open>loading\<close> true. After any run of events \<^verbatim>\<open>loading\<close> is
  true exactly when it was true before and no event of the run was a report: a settled
  computation (resolved with anything, or rejected) or a connection without the inputs. So
  every completion path sets it to false and nothing sets it back to true.
\<close>

theorem loading_until_reported:
  "loading (new_RecordFlagFetcher e r m)
   \<and> loading (foldl fetcher_step s evs) = (loading s \<and> (\<forall>ev\<in>set evs. \<not> reports s ev))"
proof
  show "loading (new_RecordFlagFetcher e r m)"
    by (simp add: new_RecordFlagFetcher_def)
  show "loading (foldl fetcher_step s evs) = (loading s \<and> (\<forall>ev\<in>set evs. \<not> reports s ev))"
  proof (induction evs arbitrary: s)
    case Nil
    then show ?case by simp
  next
    case (Cons ev evs)
    show ?case
      using Cons[of "fetcher_step s ev"]
      by (auto simp: fetcher_step_loading reports_step)
  qed
qed

theorem loading_until_reported_witness:
  "loading (foldl fetcher_step (new_RecordFlagFetcher JsUndefined (JsVal ''case'') (JsVal ''DaysOpen''))
              [Connected, MouseOver (JsVal ''key_0'')])
   \<and> \<not> loading (foldl fetcher_step (new_RecordFlagFetcher JsUndefined (JsVal ''case'') (JsVal ''DaysOpen''))
              [Connected, Settled (Resolved (JsVal [example_warning])), BadgeClick (JsVal ''key_0'')])"
  using loading_until_reported[of JsUndefined "JsVal ''case''" "JsVal ''DaysOpen''"
      "new_RecordFlagFetcher JsUndefined (JsVal ''case'') (JsVal ''DaysOpen'')"
      "[Connected, MouseOver (JsVal ''key_0'')]"]
    loading_until_reported[of JsUndefined "JsVal ''case''" "JsVal ''DaysOpen''"
      "new_RecordFlagFetcher JsUndefined (JsVal ''case'') (JsVal ''DaysOpen'')"
      "[Connected, Settled (Resolved (JsVal [example_warning])), BadgeClick (JsVal ''key_0'')]"]
  by (simp add: has_inputs_def new_RecordFlagFetcher_def)

section \<open>Coalescing in \<^verbatim>\<open>handleChildRecordFlags\<close>\<close>

lemma existing_test:
  "str_includes (stringify (JArray (map flag_json fs))) Component_Error
     \<longleftrightarrow> (\<exists>f\<in>set fs. is_failure_flag f)"
  unfolding includes_stringify is_failure_flag_def by auto

lemma is_failure_flag_body:
  assumes "is_failure_flag e" "b = body e \<or> (\<exists>t. b = JsVal (to_str (body e) @ t))"
  shows "is_failure_flag (e\<lparr>body := b\<rparr>)"
proof -
  from assms(1) obtain s where
    s: "s \<in> set (json_strings (flag_json e))" "sublist Component_Error (escape s)"
    unfolding is_failure_flag_def includes_stringify by blast
  from assms(2) show ?thesis
  proof
    assume "b = body e"
    then show ?thesis using assms(1) by simp
  next
    assume "\<exists>t. b = JsVal (to_str (body e) @ t)"
    then obtain t where b: "b = JsVal (to_str (body e) @ t)" by blast
    show ?thesis
    proof (cases "body e = JsVal s")
      case True
      then have "sublist Component_Error (escape (to_str (body e) @ t))"
        using s(2) by (simp add: escape_append sublist_order.order_trans)
      moreover have "to_str (body e) @ t \<in> set (json_strings (flag_json (e\<lparr>body := b\<rparr>)))"
        by (simp add: b flag_json_def record_flag_props_def json_prop_def)
      ultimately show ?thesis
        unfolding is_failure_flag_def includes_stringify by blast
    next
      case False
      then have "s \<in> set (json_strings (flag_json (e\<lparr>body := b\<rparr>)))"
        using s(1)
        by (cases "body e") (auto simp: b flag_json_def record_flag_props_def json_prop_def)
      then show ?thesis
        unfolding is_failure_flag_def includes_stringify using s(2) by blast
    qed
  qed
qed

lemma is_failure_flag_step_body:
  "is_failure_flag e \<Longrightarrow> is_failure_flag (e\<lparr>body := step_body (body e) c\<rparr>)"
  by (rule is_failure_flag_body) (auto simp: step_body_def)

lemma coalesce_first:
  assumes "existingFlag s = []"
  shows "coalesce s f = Inr (s\<lparr>existingFlag := [f]\<rparr>)"
proof -
  have "\<not> str_includes (stringify (JArray (map flag_json (existingFlag s)))) Component_Error"
    unfolding existing_test using assms by simp
  then show ?thesis unfolding coalesce_def using assms by simp
qed

lemma coalesce_next:
  assumes "existingFlag s = [e]" "is_failure_flag e"
  shows "coalesce s f = Inr (s\<lparr>existingFlag := [e\<lparr>body := step_body (body e) (body f)\<rparr>]\<rparr>)"
proof -
  have t: "str_includes (stringify (JArray (map flag_json (existingFlag s)))) Component_Error"
    unfolding existing_test using assms by simp
  show ?thesis
  proof (cases "body e = body f")
    case True
    then have "e\<lparr>body := step_body (body e) (body f)\<rparr> = e" by (simp add: step_body_def)
    moreover have "s\<lparr>existingFlag := [e]\<rparr> = s" using assms(1) by simp
    ultimately show ?thesis unfolding coalesce_def using t assms(1) True by simp
  next
    case False
    then show ?thesis unfolding coalesce_def using t assms(1) by (simp add: step_body_def)
  qed
qed

lemma forEach_coalesce:
  assumes "existingFlag s = [e]" "is_failure_flag e"
  shows "forEach coalesce fs s =
           Inr (s\<lparr>existingFlag := [e\<lparr>body := foldl step_body (body e) (map body fs)\<rparr>]\<rparr>)"
  using assms
proof (induction fs arbitrary: s e)
  case Nil
  then show ?case by simp
next
  case (Cons f fs)
  let ?e = "e\<lparr>body := step_body (body e) (body f)\<rparr>"
  let ?s = "s\<lparr>existingFlag := [?e]\<rparr>"
  have "forEach coalesce fs ?s =
          Inr (?s\<lparr>existingFlag := [?e\<lparr>body := foldl step_body (body ?e) (map body fs)\<rparr>]\<rparr>)"
    by (rule Cons.IH) (simp_all add: is_failure_flag_step_body Cons.prems)
  then show ?case by (simp add: coalesce_next[OF Cons.prems])
qed

lemma is_failure_flag_foldl:
  "is_failure_flag e \<Longrightarrow> is_failure_flag (e\<lparr>body := foldl step_body (body e) cs\<rparr>)"
proof (induction cs arbitrary: e)
  case Nil
  then show ?case by simp
next
  case (Cons c cs)
  from Cons.IH[OF is_failure_flag_step_body[OF Cons.prems, of c]]
  show ?case by simp
qed

lemma handleChild_nil: "handleChildRecordFlags s [] = Inr s"
  by (simp add: handleChildRecordFlags_def)

lemma handleChild_existing:
  assumes "existingFlag s = [e]" "is_failure_flag e"
  shows "handleChildRecordFlags s d =
           Inr (s\<lparr>existingFlag := [e\<lparr>body := foldl step_body (body e) (map body d)\<rparr>],
                  haveErrors := (haveErrors s \<or> d \<noteq> [])\<rparr>)"
proof (cases d)
  case Nil
  then show ?thesis using assms(1) by (simp add: handleChild_nil)
next
  case (Cons f fs)
  then show ?thesis
    by (simp add: handleChildRecordFlags_def forEach_coalesce[OF assms] del: forEach.simps)
qed

lemma handleChild_first:
  assumes "existingFlag s = []" "is_failure_flag f"
  shows "handleChildRecordFlags s (f # fs) =
           Inr (s\<lparr>existingFlag := [f\<lparr>body := foldl step_body (body f) (map body fs)\<rparr>],
                  haveErrors := True\<rparr>)"
proof -
  have "forEach coalesce fs (s\<lparr>existingFlag := [f]\<rparr>) =
          Inr (s\<lparr>existingFlag := [f]\<rparr>
                \<lparr>existingFlag := [f\<lparr>body := foldl step_body (body f) (map body fs)\<rparr>]\<rparr>)"
    by (rule forEach_coalesce) (simp_all add: assms)
  then show ?thesis
    by (simp add: handleChildRecordFlags_def coalesce_first[OF assms(1)])
qed

lemma flags_settled_existing:
  "existingFlag (flags_settled s out) = existingFlag s
   \<and> haveErrors (flags_settled s out) = haveErrors s"
  by (auto simp: flags_settled_def flags_then_def flags_handleError_def flags_showToast_def Let_def
        split: outcome.splits jsopt.splits sum.splits)

lemma quiet_step:
  assumes "detail_of ev = []"
  shows "\<exists>s'. flags_step s ev = Inr s' \<and> existingFlag s' = existingFlag s"
  using assms
  by (cases ev)
     (auto simp: flags_connectedCallback_def flags_disconnectedCallback_def handleRefresh_def
        flags_getData_def flags_settled_existing handleChild_nil Let_def)

lemma flags_step_existing:
  assumes "length (existingFlag s) \<le> 1"
      and "case existingFlag s @ detail_of ev of [] \<Rightarrow> True | f # fs \<Rightarrow> is_failure_flag f"
  shows "\<exists>s'. flags_step s ev = Inr s' \<and>
           existingFlag s' =
             (case existingFlag s @ detail_of ev of
                [] \<Rightarrow> []
              | f # fs \<Rightarrow> [f\<lparr>body := foldl step_body (body f) (map body fs)\<rparr>])"
proof (cases "existingFlag s")
  case Nil
  show ?thesis
  proof (cases "detail_of ev")
    case Nil
    with quiet_step[OF this, of s] \<open>existingFlag s = []\<close> show ?thesis by simp
  next
    case (Cons f fs)
    then obtain d where ev: "ev = ChildErrors d" by (cases ev) auto
    have "is_failure_flag f" using assms(2) Nil Cons by simp
    then show ?thesis using handleChild_first[OF Nil, of f fs] Nil Cons ev by simp
  qed
next
  case (Cons e es)
  then have e: "existingFlag s = [e]" using assms(1) by simp
  have f: "is_failure_flag e" using assms(2) e by simp
  show ?thesis
  proof (cases "detail_of ev")
    case Nil
    with quiet_step[OF this, of s] e show ?thesis by simp
  next
    case (Cons g gs)
    then obtain d where ev: "ev = ChildErrors d" by (cases ev) auto
    show ?thesis using handleChild_existing[OF e f, of d] e ev by simp
  qed
qed

lemma flags_run_existing:
  assumes "length (existingFlag s) \<le> 1"
      and "case existingFlag s @ delivered evs of [] \<Rightarrow> True | f # fs \<Rightarrow> is_failure_flag f"
  shows "\<exists>s'. flags_run s evs = Inr s' \<and>
           existingFlag s' =
             (case existingFlag s @ delivered evs of
                [] \<Rightarrow> []
              | f # fs \<Rightarrow> [f\<lparr>body := foldl step_body (body f) (map body fs)\<rparr>])"
  using assms
proof (induction evs arbitrary: s)
  case Nil
  then show ?case
    by (cases "existingFlag s") (auto simp: flags_run_def delivered_def)
next
  case (Cons ev evs)
  have d: "delivered (ev # evs) = detail_of ev @ delivered evs"
    by (simp add: delivered_def)
  have "case existingFlag s @ detail_of ev of [] \<Rightarrow> True | f # fs \<Rightarrow> is_failure_flag f"
    using Cons.prems(2) unfolding d by (cases "existingFlag s"; cases "detail_of ev") auto
  from flags_step_existing[OF Cons.prems(1) this] obtain s1 where
    s1: "flags_step s ev = Inr s1"
        "existingFlag s1 =
           (case existingFlag s @ detail_of ev of
              [] \<Rightarrow> []
            | f # fs \<Rightarrow> [f\<lparr>body := foldl step_body (body f) (map body fs)\<rparr>])"
    by blast
  have run: "flags_run s (ev # evs) = flags_run s1 evs"
    by (simp add: flags_run_def s1(1))
  show ?case
  proof (cases "existingFlag s @ detail_of ev")
    case Nil
    then have "existingFlag s1 = []" using s1(2) by simp
    moreover have "existingFlag s @ delivered (ev # evs) = delivered evs"
      using Nil d by simp
    ultimately show ?thesis
      using Cons.IH[of s1] Cons.prems(2) run by simp
  next
    case (Cons f fs)
    let ?f1 = "f\<lparr>body := foldl step_body (body f) (map body fs)\<rparr>"
    have e1: "existingFlag s1 = [?f1]" using s1(2) Cons by simp
    have ff: "is_failure_flag f"
      using \<open>case existingFlag s @ detail_of ev of [] \<Rightarrow> True | f # fs \<Rightarrow> is_failure_flag f\<close> Cons
      by simp
    have "\<exists>s'. flags_run s1 evs = Inr s' \<and>
           existingFlag s' =
             (case existingFlag s1 @ delivered evs of
                [] \<Rightarrow> []
              | f # fs \<Rightarrow> [f\<lparr>body := foldl step_body (body f) (map body fs)\<rparr>])"
      by (rule Cons.IH) (simp_all add: e1 is_failure_flag_foldl[OF ff])
    moreover have "existingFlag s @ delivered (ev # evs) = f # fs @ delivered evs"
      using Cons d by simp
    ultimately show ?thesis
      using run e1 by simp
  qed
qed

lemma foldl_step_body_extends:
  "foldl step_body b cs = b \<or> (\<exists>t. foldl step_body b cs = JsVal (to_str b @ t))"
proof (induction cs arbitrary: b)
  case Nil
  then show ?case by simp
next
  case (Cons c cs)
  show ?case
  proof (cases "b = c")
    case True
    then have "foldl step_body b (c # cs) = foldl step_body b cs"
      by (simp add: step_body_def)
    then show ?thesis using Cons[of b] by simp
  next
    case False
    let ?b1 = "JsVal (to_str b @ newline @ to_str c)"
    have st: "foldl step_body b (c # cs) = foldl step_body ?b1 cs"
      using False by (simp add: step_body_def)
    have "foldl step_body ?b1 cs = ?b1 \<or> (\<exists>t. foldl step_body ?b1 cs = JsVal (to_str ?b1 @ t))"
      by (rule Cons)
    then show ?thesis unfolding st by auto
  qed
qed

lemma grown_foldl: "grown f (f\<lparr>body := foldl step_body (body f) cs\<rparr>)"
  using foldl_step_body_extends[of "body f" cs] by (auto simp: grown_def)

lemma is_failure_flag_example: "is_failure_flag (make_flag 0 example_error)"
  by (rule routed_is_failure_flag) (rule routed_example_error)

lemma is_failure_flag_limit: "is_failure_flag (make_flag 0 limit_error)"
  by (rule routed_is_failure_flag, rule header_routed)
     (simp add: limit_error_def Component_Error_def)

text \<open>
  Claim C2. Take a parent that holds no error flag, or one error flag that carries the
  marker, and any run of events in which every flag delivered by a child carries the marker
  (every flag that a child sends does, by \<open>routed_is_failure_flag\<close>, and a longer body
  keeps it, by \<open>is_failure_flag_body\<close>). The run never throws. Afterwards the parent holds
  no error flag if there was none and none was delivered; otherwise it holds exactly one:
  the flag it held, or else the first flag delivered. Its body is the old body to which
  every later failure, in order, has added a newline and its own body, a failure being
  passed over only when its body is the whole body of the flag at that moment
  (\<open>step_body\<close>). So the body only grows, no second flag is pushed, and no event removes
  the flag.
\<close>

theorem at_most_one_error_flag:
  assumes "existingFlag s = [] \<or> (\<exists>e. existingFlag s = [e] \<and> is_failure_flag e)"
      and "list_all is_failure_flag (delivered evs)"
  shows "\<exists>s'. flags_run s evs = Inr s' \<and>
           (case existingFlag s @ delivered evs of
              [] \<Rightarrow> existingFlag s' = []
            | f # fs \<Rightarrow>
                existingFlag s' = [f\<lparr>body := foldl step_body (body f) (map body fs)\<rparr>]
                \<and> (\<exists>e'. existingFlag s' = [e'] \<and> grown f e' \<and> is_failure_flag e'))"
proof -
  have len: "length (existingFlag s) \<le> 1" using assms(1) by auto
  have first: "case existingFlag s @ delivered evs of [] \<Rightarrow> True | f # fs \<Rightarrow> is_failure_flag f"
    using assms by (cases "existingFlag s"; cases "delivered evs") auto
  from flags_run_existing[OF len first] obtain s' where
    s': "flags_run s evs = Inr s'"
        "existingFlag s' =
           (case existingFlag s @ delivered evs of
              [] \<Rightarrow> []
            | f # fs \<Rightarrow> [f\<lparr>body := foldl step_body (body f) (map body fs)\<rparr>])"
    by blast
  show ?thesis
  proof (cases "existingFlag s @ delivered evs")
    case Nil
    then show ?thesis using s' by simp
  next
    case (Cons f fs)
    then have "is_failure_flag f" using first by simp
    then show ?thesis
      using s' Cons grown_foldl[of f "map body fs"] is_failure_flag_foldl[of f "map body fs"]
      by simp
  qed
qed

theorem at_most_one_error_flag_witness:
  "(existingFlag (new_RecordFlags (JsVal ''500'') (JsVal ''Case'')) = []
    \<or> (\<exists>e. existingFlag (new_RecordFlags (JsVal ''500'') (JsVal ''Case'')) = [e] \<and> is_failure_flag e))
   \<and> list_all is_failure_flag
        (delivered [FlagsConnected ''h'', CatalogSettled (Resolved (JsVal \<lparr>fetchers = [''A'', ''B''], sharedData = JsVal ''case''\<rparr>)),
                    ChildErrors [make_flag 0 example_error], ChildErrors [make_flag 0 limit_error], Refresh])
   \<and> (\<exists>s'. flags_run (new_RecordFlags (JsVal ''500'') (JsVal ''Case''))
               [FlagsConnected ''h'', CatalogSettled (Resolved (JsVal \<lparr>fetchers = [''A'', ''B''], sharedData = JsVal ''case''\<rparr>)),
                ChildErrors [make_flag 0 example_error], ChildErrors [make_flag 0 limit_error], Refresh] = Inr s'
          \<and> existingFlag s' =
              [(make_flag 0 example_error)
                 \<lparr>body := JsVal (join_newline [''Attempt to de-reference a null object'',
                                               ''Too many SOQL queries: 101''])\<rparr>])"
proof -
  let ?s = "new_RecordFlags (JsVal ''500'') (JsVal ''Case'')"
  let ?evs = "[FlagsConnected ''h'', CatalogSettled (Resolved (JsVal \<lparr>fetchers = [''A'', ''B''], sharedData = JsVal ''case''\<rparr>)),
               ChildErrors [make_flag 0 example_error], ChildErrors [make_flag 0 limit_error], Refresh]"
  have h1: "existingFlag ?s = [] \<or> (\<exists>e. existingFlag ?s = [e] \<and> is_failure_flag e)"
    by (simp add: new_RecordFlags_def)
  have d: "delivered ?evs = [make_flag 0 example_error, make_flag 0 limit_error]"
    by (simp add: delivered_def)
  have h2: "list_all is_failure_flag (delivered ?evs)"
    unfolding d by (simp add: is_failure_flag_example is_failure_flag_limit)
  have e: "existingFlag ?s = []" by (simp add: new_RecordFlags_def)
  have b: "foldl step_body (body (make_flag 0 example_error)) (map body [make_flag 0 limit_error]) =
           JsVal (join_newline [''Attempt to de-reference a null object'',
                                ''Too many SOQL queries: 101''])"
    by (simp add: step_body_def make_flag_def example_error_def limit_error_def)
  from at_most_one_error_flag[OF h1 h2] obtain s' where
    "flags_run ?s ?evs = Inr s'"
    "existingFlag s' =
       [(make_flag 0 example_error)
          \<lparr>body := foldl step_body (body (make_flag 0 example_error))
                     (map body [make_flag 0 limit_error])\<rparr>]"
    unfolding d e by auto
  then show ?thesis
    using h1 h2 unfolding b by blast
qed

lemma foldl_step_body_same:
  "\<forall>c\<in>set cs. c = b \<Longrightarrow> foldl step_body b cs = b"
  by (induction cs) (simp_all add: step_body_def)

lemma join_newline_Cons: "join_newline (r # rs) = r @ concat (map (\<lambda>t. newline @ t) rs)"
  by (induction rs arbitrary: r) simp_all

lemma foldl_step_body_fresh:
  assumes "\<forall>r\<in>set rs. CHR 0x0A \<notin> set r"
      and "CHR 0x0A \<in> set acc \<or> acc \<notin> set rs"
  shows "foldl step_body (JsVal acc) (map JsVal rs) =
           JsVal (acc @ concat (map (\<lambda>t. newline @ t) rs))"
  using assms
proof (induction rs arbitrary: acc)
  case Nil
  then show ?case by simp
next
  case (Cons r rs)
  have ne: "acc \<noteq> r" using Cons.prems by auto
  then have st: "foldl step_body (JsVal acc) (map JsVal (r # rs)) =
                 foldl step_body (JsVal (acc @ newline @ r)) (map JsVal rs)"
    by (simp add: step_body_def)
  have "foldl step_body (JsVal (acc @ newline @ r)) (map JsVal rs) =
          JsVal ((acc @ newline @ r) @ concat (map (\<lambda>t. newline @ t) rs))"
    by (rule Cons.IH) (use Cons.prems in \<open>auto simp: newline_def\<close>)
  then show ?case unfolding st by simp
qed

text \<open>
  Claim C1, as amended. Take a parent that holds no error flag and a run of events whose
  first delivered flag carries the marker. If all later delivered flags have the body of the
  first one, the parent ends with that flag unchanged: the reason is in the body once. If
  the bodies of the delivered flags are strings that are pairwise distinct and free of
  newlines, the body ends as those strings joined by newlines, in the order of arrival: one
  entry for each.
\<close>

theorem coalesced_body_identical_or_distinct:
  assumes "existingFlag s = []" and "delivered evs = f # fs" and "is_failure_flag f"
  shows "\<exists>s'. flags_run s evs = Inr s' \<and>
           ((\<forall>g\<in>set fs. body g = body f) \<longrightarrow> existingFlag s' = [f]) \<and>
           (\<forall>rs. map body (f # fs) = map JsVal rs \<and> distinct rs
                   \<and> (\<forall>r\<in>set rs. CHR 0x0A \<notin> set r)
                 \<longrightarrow> existingFlag s' = [f\<lparr>body := JsVal (join_newline rs)\<rparr>])"
proof -
  have len: "length (existingFlag s) \<le> 1" using assms(1) by simp
  have first: "case existingFlag s @ delivered evs of [] \<Rightarrow> True | f # fs \<Rightarrow> is_failure_flag f"
    using assms by simp
  from flags_run_existing[OF len first] obtain s' where
    s': "flags_run s evs = Inr s'"
        "existingFlag s' = [f\<lparr>body := foldl step_body (body f) (map body fs)\<rparr>]"
    using assms(1,2) by auto
  have same: "existingFlag s' = [f]" if "\<forall>g\<in>set fs. body g = body f"
  proof -
    have "foldl step_body (body f) (map body fs) = body f"
      by (rule foldl_step_body_same) (use that in auto)
    then show ?thesis using s'(2) by simp
  qed
  have dist: "existingFlag s' = [f\<lparr>body := JsVal (join_newline rs)\<rparr>]"
    if "map body (f # fs) = map JsVal rs" "distinct rs" "\<forall>r\<in>set rs. CHR 0x0A \<notin> set r" for rs
  proof -
    from that(1) obtain r rs' where rs: "rs = r # rs'" "body f = JsVal r" "map body fs = map JsVal rs'"
      by (cases rs) auto
    have "foldl step_body (JsVal r) (map JsVal rs') = JsVal (r @ concat (map (\<lambda>t. newline @ t) rs'))"
      by (rule foldl_step_body_fresh) (use that(2,3) rs(1) in auto)
    then show ?thesis using s'(2) rs by (simp add: join_newline_Cons del: join_newline.simps)
  qed
  show ?thesis using s'(1) same dist by blast
qed

theorem coalesced_body_identical_or_distinct_witness:
  "existingFlag (new_RecordFlags (JsVal ''500'') (JsVal ''Case'')) = []
   \<and> delivered [ChildErrors [make_flag 0 limit_error], ChildErrors [make_flag 0 example_error]]
       = [make_flag 0 limit_error, make_flag 0 example_error]
   \<and> is_failure_flag (make_flag 0 limit_error)
   \<and> (\<exists>s'. flags_run (new_RecordFlags (JsVal ''500'') (JsVal ''Case''))
               [ChildErrors [make_flag 0 limit_error], ChildErrors [make_flag 0 example_error]] = Inr s'
          \<and> existingFlag s' =
              [(make_flag 0 limit_error)
                 \<lparr>body := JsVal (join_newline [''Too many SOQL queries: 101'',
                                               ''Attempt to de-reference a null object''])\<rparr>])"
proof -
  let ?s = "new_RecordFlags (JsVal ''500'') (JsVal ''Case'')"
  let ?evs = "[ChildErrors [make_flag 0 limit_error], ChildErrors [make_flag 0 example_error]]"
  have h1: "existingFlag ?s = []" by (simp add: new_RecordFlags_def)
  have h2: "delivered ?evs = [make_flag 0 limit_error, make_flag 0 example_error]"
    by (simp add: delivered_def)
  from coalesced_body_identical_or_distinct[OF h1 h2 is_failure_flag_limit]
  obtain s' where
    s': "flags_run ?s ?evs = Inr s'"
        "\<forall>rs. map body [make_flag 0 limit_error, make_flag 0 example_error] = map JsVal rs
              \<and> distinct rs \<and> (\<forall>r\<in>set rs. CHR 0x0A \<notin> set r)
          \<longrightarrow> existingFlag s' = [(make_flag 0 limit_error)\<lparr>body := JsVal (join_newline rs)\<rparr>]"
    by blast
  have "existingFlag s' =
          [(make_flag 0 limit_error)
             \<lparr>body := JsVal (join_newline [''Too many SOQL queries: 101'',
                                           ''Attempt to de-reference a null object''])\<rparr>]"
    by (rule s'(2)[rule_format]) (simp add: make_flag_def limit_error_def example_error_def)
  then show ?thesis using h1 h2 is_failure_flag_limit s'(1) by blast
qed

text \<open>
  Counterexample to claim C1 as stated: three failures with the reasons \<open>a\<close>, \<open>b\<close>, \<open>a\<close> leave a body
  of three entries, not the two distinct reasons in either order.
\<close>

theorem repeated_reason_appended_again:
  "(case flags_run (new_RecordFlags (JsVal ''500'') (JsVal ''Case''))
           [ChildErrors [make_flag 0 limit_error], ChildErrors [make_flag 0 example_error],
            ChildErrors [make_flag 0 limit_error]] of
      Inr s' \<Rightarrow> map body (existingFlag s')
    | Inl e \<Rightarrow> [])
   = [JsVal (join_newline [''Too many SOQL queries: 101'',
                           ''Attempt to de-reference a null object'',
                           ''Too many SOQL queries: 101''])]
   \<and> join_newline [''Too many SOQL queries: 101'', ''Attempt to de-reference a null object'',
                    ''Too many SOQL queries: 101'']
     \<noteq> join_newline [''Too many SOQL queries: 101'', ''Attempt to de-reference a null object'']
   \<and> join_newline [''Too many SOQL queries: 101'', ''Attempt to de-reference a null object'',
                    ''Too many SOQL queries: 101'']
     \<noteq> join_newline [''Attempt to de-reference a null object'', ''Too many SOQL queries: 101'']"
proof -
  let ?s = "new_RecordFlags (JsVal ''500'') (JsVal ''Case'')"
  let ?evs = "[ChildErrors [make_flag 0 limit_error], ChildErrors [make_flag 0 example_error],
               ChildErrors [make_flag 0 limit_error]]"
  have len: "length (existingFlag ?s) \<le> 1" by (simp add: new_RecordFlags_def)
  have d: "existingFlag ?s @ delivered ?evs =
           [make_flag 0 limit_error, make_flag 0 example_error, make_flag 0 limit_error]"
    by (simp add: delivered_def new_RecordFlags_def)
  have first: "case existingFlag ?s @ delivered ?evs of [] \<Rightarrow> True | f # fs \<Rightarrow> is_failure_flag f"
    unfolding d by (simp add: is_failure_flag_limit)
  from flags_run_existing[OF len first] obtain s' where
    s': "flags_run ?s ?evs = Inr s'"
        "existingFlag s' =
           [(make_flag 0 limit_error)
              \<lparr>body := foldl step_body (body (make_flag 0 limit_error))
                         (map body [make_flag 0 example_error, make_flag 0 limit_error])\<rparr>]"
    unfolding d by auto
  have "map body (existingFlag s') =
          [JsVal (join_newline [''Too many SOQL queries: 101'',
                                ''Attempt to de-reference a null object'',
                                ''Too many SOQL queries: 101''])]"
    unfolding s'(2)
    by (simp add: make_flag_def limit_error_def example_error_def step_body_def newline_def)
  then show ?thesis using s'(1) by (simp add: newline_def)
qed

section \<open>The catalog call and the refresh\<close>

text \<open>
  Claim C3. When the promise of the catalog call rejects, the parent changes nothing but its
  log, to which it adds one error toast. In the first run of a component this leaves
  \<^verbatim>\<open>listOfActiveMdt\<close> and \<^verbatim>\<open>existingFlag\<close> empty, so there is no flag and no child to
  invoke a unit, and the log holds the catalog call, the registration of the refresh handler
  and that one toast.
\<close>

theorem rejected_catalog_call:
  "flags_settled s (Rejected error) =
     s\<lparr>flags_effects := flags_effects s @ [ShowToastEvent ''Error'' (error_text error) ''error'']\<rparr>
   \<and> flags_run (new_RecordFlags rid obj) [FlagsConnected newID, CatalogSettled (Rejected error)] =
       Inr \<lparr>recordId = rid, objectApiName = obj, haveFlags = False, haveErrors = False,
            listOfActiveMdt = [], existingFlag = [], sharedRecord = JsUndefined,
            refreshHandlerID = JsVal newID,
            flags_effects = [Apex_getFetchers rid obj, RegisterRefreshHandler,
                             ShowToastEvent ''Error'' (error_text error) ''error'']\<rparr>
   \<and> render_children
        \<lparr>recordId = rid, objectApiName = obj, haveFlags = False, haveErrors = False,
         listOfActiveMdt = [], existingFlag = [], sharedRecord = JsUndefined,
         refreshHandlerID = JsVal newID,
         flags_effects = [Apex_getFetchers rid obj, RegisterRefreshHandler,
                          ShowToastEvent ''Error'' (error_text error) ''error'']\<rparr> = []"
  by (simp add: flags_settled_def flags_handleError_def flags_showToast_def flags_run_def
        flags_connectedCallback_def flags_getData_def new_RecordFlags_def render_children_def
        Let_def)

lemma coalesce_with_run:
  "coalesce (with_run l d h es s) f = map_sum id (with_run l d h es) (coalesce s f)"
  by (cases "existingFlag s")
     (simp_all add: coalesce_def with_run_def)

lemma forEach_coalesce_with_run:
  "forEach coalesce fs (with_run l d h es s) = map_sum id (with_run l d h es) (forEach coalesce fs s)"
proof (induction fs arbitrary: s)
  case Nil
  then show ?case by simp
next
  case (Cons f fs)
  show ?case
    by (cases "coalesce s f") (simp_all add: coalesce_with_run Cons)
qed

text \<open>
  Claim C7, as amended. The parent keeps no run identifier. A refresh only issues the
  catalog call again. A catalog call that resolves overwrites \<^verbatim>\<open>listOfActiveMdt\<close>,
  \<^verbatim>\<open>record\<close> and \<^verbatim>\<open>haveFlags\<close>, whichever call it answers, and leaves \<^verbatim>\<open>existingFlag\<close>
  and \<^verbatim>\<open>haveErrors\<close> as they are. What \<^verbatim>\<open>handleChildRecordFlags\<close> does with an event
  depends on none of the fields that a refresh or a catalog result can change: it merges
  every event it is given.
\<close>

theorem refresh_has_no_run_identifier:
  "handleRefresh s =
     s\<lparr>flags_effects := flags_effects s @ [Apex_getFetchers (recordId s) (objectApiName s)]\<rparr>
   \<and> flags_settled s (Resolved (JsVal r)) =
       s\<lparr>listOfActiveMdt := fetchers r, sharedRecord := sharedData r, haveFlags := True,
         flags_effects := flags_effects s @ [ConsoleLog (JsVal r)]\<rparr>
   \<and> handleChildRecordFlags (with_run l d h es s) detail =
       map_sum id (with_run l d h es) (handleChildRecordFlags s detail)"
proof -
  have "handleChildRecordFlags (with_run l d h es s) detail =
          map_sum id (with_run l d h es) (handleChildRecordFlags s detail)"
    unfolding handleChildRecordFlags_def forEach_coalesce_with_run
    by (cases "forEach coalesce detail s") (simp_all add: with_run_def)
  then show ?thesis
    by (simp add: handleRefresh_def flags_getData_def flags_settled_def flags_then_def Let_def)
qed

text \<open>
  Counterexample to claim C7 as stated. A failure of the first run is still in \<^verbatim>\<open>existingFlag\<close> after
  a refresh and the answer to its catalog call; a failure that a child of the first run sends
  after the refresh is merged; and the answer to the first catalog call, when it arrives
  after the answer to the second, overwrites the newer list of units.
\<close>

theorem stale_outcomes_are_merged:
  "(case flags_run (new_RecordFlags (JsVal ''500'') (JsVal ''Case''))
           [FlagsConnected ''h'', CatalogSettled (Resolved (JsVal first_catalog)),
            ChildErrors [make_flag 0 example_error],
            Refresh, CatalogSettled (Resolved (JsVal second_catalog))] of
      Inr s' \<Rightarrow> (existingFlag s', haveErrors s', listOfActiveMdt s')
    | Inl e \<Rightarrow> ([], False, []))
   = ([make_flag 0 example_error], True, [''DaysOpen''])
   \<and> (case flags_run (new_RecordFlags (JsVal ''500'') (JsVal ''Case''))
           [FlagsConnected ''h'', CatalogSettled (Resolved (JsVal first_catalog)),
            Refresh, CatalogSettled (Resolved (JsVal second_catalog)),
            ChildErrors [make_flag 0 example_error]] of
      Inr s' \<Rightarrow> (existingFlag s', haveErrors s', listOfActiveMdt s')
    | Inl e \<Rightarrow> ([], False, []))
   = ([make_flag 0 example_error], True, [''DaysOpen''])
   \<and> (case flags_run (new_RecordFlags (JsVal ''500'') (JsVal ''Case''))
           [FlagsConnected ''h'', Refresh,
            CatalogSettled (Resolved (JsVal second_catalog)),
            CatalogSettled (Resolved (JsVal first_catalog))] of
      Inr s' \<Rightarrow> (existingFlag s', haveErrors s', listOfActiveMdt s')
    | Inl e \<Rightarrow> ([], False, []))
   = ([], False, [''DaysOpen'', ''OpenContactOpportunities''])"
  by (simp add: flags_run_def new_RecordFlags_def flags_connectedCallback_def flags_getData_def
        flags_settled_def flags_then_def handleRefresh_def handleChild_first is_failure_flag_example
        first_catalog_def second_catalog_def Let_def)

section \<open>The page: one parent and its children\<close>

lemma fetcher_settled_rendered:
  "listOfRecordFlags (fetcher_settled c out) = listOfRecordFlags c @ unit_flags out"
proof (cases out)
  case (Resolved result)
  show ?thesis
  proof (cases result)
    case (JsVal flagData)
    show ?thesis
      by (cases flagData)
         (simp_all add: Resolved JsVal fetcher_settled_def handleRecordFlags_def unit_flags_def
            foldl_handle_value del: foldl.simps)
  qed (simp_all add: Resolved fetcher_settled_def handleRecordFlags_def unit_flags_def
         fetcher_catch_def fetcher_handleError_def fetcher_showToast_def)
qed (simp add: fetcher_settled_def unit_flags_def fetcher_catch_def fetcher_handleError_def
       fetcher_showToast_def)

lemma settle_at_length [simp]: "length (settle_at cs io) = length cs"
  by (simp add: settle_at_def)

lemma foldl_settle_at_length [simp]: "length (foldl settle_at cs sch) = length cs"
  by (induction sch arbitrary: cs) simp_all

lemma foldl_settle_at_nth:
  assumes "distinct (map fst sch)" "i < length cs"
  shows "foldl settle_at cs sch ! i =
           (case map_of sch i of None \<Rightarrow> cs ! i | Some out \<Rightarrow> fetcher_settled (cs ! i) out)"
  using assms
proof (induction sch arbitrary: cs)
  case Nil
  then show ?case by simp
next
  case (Cons io sch)
  obtain j out where io: "io = (j, out)" by (cases io)
  have d: "distinct (map fst sch)" "j \<notin> fst ` set sch" using Cons.prems(1) io by auto
  have IH: "foldl settle_at (settle_at cs io) sch ! i =
          (case map_of sch i of None \<Rightarrow> settle_at cs io ! i
           | Some out \<Rightarrow> fetcher_settled (settle_at cs io ! i) out)"
    by (rule Cons.IH) (use d Cons.prems(2) in simp_all)
  show ?case
  proof (cases "i = j")
    case True
    then have "map_of sch i = None" using d(2) by (simp add: map_of_eq_None_iff)
    moreover have "settle_at cs io ! i = fetcher_settled (cs ! i) out"
      using True Cons.prems(2) io by (simp add: settle_at_def)
    moreover have "foldl settle_at cs (io # sch) = foldl settle_at (settle_at cs io) sch"
      by simp
    moreover have "map_of (io # sch) i = Some out" using True io by simp
    ultimately show ?thesis using IH by (simp del: foldl.simps split: option.splits)
  next
    case False
    then have "settle_at cs io ! i = cs ! i" using io by (simp add: settle_at_def)
    moreover have "foldl settle_at cs (io # sch) = foldl settle_at (settle_at cs io) sch"
      by simp
    moreover have "map_of (io # sch) i = map_of sch i" using False io by simp
    ultimately show ?thesis using IH by (simp del: foldl.simps split: option.splits)
  qed
qed

lemma render_children_fresh:
  assumes "c \<in> set (render_children p)"
  shows "listOfRecordFlags c = []"
  using assms
  by (auto simp: render_children_def fetcher_connectedCallback_def fetcher_getData_def
        new_RecordFlagFetcher_def)

text \<open>
  Claim C8. Let the children of the page be settled in any order, every unit once and with
  its own outcome. The flags on the page are then the flags of the first unit of
  \<^verbatim>\<open>listOfActiveMdt\<close>, followed by those of the second, and so on: the order of the catalog
  result, whatever the order of completion. (Flags routed to the parent are not among them.)
\<close>

theorem rendered_in_catalog_order:
  assumes "length outs = length (listOfActiveMdt p)"
      and "distinct (map fst schedule)"
      and "set schedule = set (zip [0..<length outs] outs)"
  shows "rendered (foldl settle_at (render_children p) schedule) = concat (map unit_flags outs)"
proof -
  let ?cs = "render_children p"
  let ?final = "foldl settle_at ?cs schedule"
  have n: "length ?cs = length outs" using assms(1) by (simp add: render_children_def)
  have "map listOfRecordFlags ?final = map unit_flags outs"
  proof (rule nth_equalityI)
    show "length (map listOfRecordFlags ?final) = length (map unit_flags outs)"
      using n by simp
  next
    fix i assume "i < length (map listOfRecordFlags ?final)"
    then have i: "i < length outs" "i < length ?cs" using n by simp_all
    have "(i, outs ! i) \<in> set (zip [0..<length outs] outs)"
      using i(1) by (auto simp: in_set_zip intro!: exI[of _ i])
    then have "map_of schedule i = Some (outs ! i)"
      using assms(2,3) by simp
    then have "?final ! i = fetcher_settled (?cs ! i) (outs ! i)"
      using foldl_settle_at_nth[OF assms(2) i(2)] by simp
    moreover have "listOfRecordFlags (?cs ! i) = []"
      by (rule render_children_fresh[of _ p]) (use i(2) in simp)
    ultimately show "map listOfRecordFlags ?final ! i = map unit_flags outs ! i"
      using i n by (simp add: fetcher_settled_rendered)
  qed
  then show ?thesis by (simp add: rendered_def)
qed

theorem rendered_in_catalog_order_witness:
  "length [Resolved (JsVal [example_warning]), Resolved (JsVal [example_error, example_warning])]
     = length (listOfActiveMdt (with_run [''DaysOpen'', ''OpenContactOpportunities''] (JsVal ''case v1'') True []
                                 (new_RecordFlags (JsVal ''500'') (JsVal ''Case''))))
   \<and> distinct (map fst [(1, Resolved (JsVal [example_error, example_warning])),
                         (0::nat, Resolved (JsVal [example_warning]))])
   \<and> set [(1, Resolved (JsVal [example_error, example_warning])),
           (0, Resolved (JsVal [example_warning]))]
       = set (zip [0..<length [Resolved (JsVal [example_warning]),
                               Resolved (JsVal [example_error, example_warning])]]
                  [Resolved (JsVal [example_warning]),
                   Resolved (JsVal [example_error, example_warning])])
   \<and> rendered (foldl settle_at
        (render_children (with_run [''DaysOpen'', ''OpenContactOpportunities''] (JsVal ''case v1'') True []
                            (new_RecordFlags (JsVal ''500'') (JsVal ''Case''))))
        [(1, Resolved (JsVal [example_error, example_warning])),
         (0, Resolved (JsVal [example_warning]))])
     = [make_flag 0 example_warning, make_flag 1 example_warning]"
proof -
  let ?p = "with_run [''DaysOpen'', ''OpenContactOpportunities''] (JsVal ''case v1'') True []
              (new_RecordFlags (JsVal ''500'') (JsVal ''Case''))"
  let ?outs = "[Resolved (JsVal [example_warning]), Resolved (JsVal [example_error, example_warning])]"
  let ?sch = "[(1::nat, Resolved (JsVal [example_error, example_warning])),
               (0, Resolved (JsVal [example_warning]))]"
  have h1: "length ?outs = length (listOfActiveMdt ?p)"
    by (simp add: with_run_def)
  have h2: "distinct (map fst ?sch)"
    by simp
  have u: "[0..<length ?outs] = [0, 1]"
    by (simp add: upt_rec)
  have h3: "set ?sch = set (zip [0..<length ?outs] ?outs)"
    unfolding u by auto
  have "concat (map unit_flags ?outs) = [make_flag 0 example_warning, make_flag 1 example_warning]"
    by (simp add: unit_flags_def built_def routed_example_error not_routed_example_warning)
  then show ?thesis
    using h1 h2 h3 rendered_in_catalog_order[OF h1 h2 h3] by simp
qed

lemma error_events_no_fetch: "filter is_shared_fetch (error_events acc fs) = []"
  by (induction fs arbitrary: acc) simp_all

lemma fetcher_settled_no_fetch:
  "filter is_shared_fetch (fetcher_effects (fetcher_settled c out)) =
     filter is_shared_fetch (fetcher_effects c)"
proof (cases out)
  case (Resolved result)
  show ?thesis
  proof (cases result)
    case (JsVal flagData)
    show ?thesis
      by (cases flagData)
         (simp_all add: Resolved JsVal fetcher_settled_def handleRecordFlags_def
            foldl_handle_value error_events_no_fetch del: foldl.simps)
  qed (simp_all add: Resolved fetcher_settled_def handleRecordFlags_def
         fetcher_catch_def fetcher_handleError_def fetcher_showToast_def)
qed (simp add: fetcher_settled_def fetcher_catch_def fetcher_handleError_def
       fetcher_showToast_def)

lemma fetcher_step_no_fetch:
  "filter is_shared_fetch (fetcher_effects (fetcher_step c ev)) =
     filter is_shared_fetch (fetcher_effects c)"
  by (cases ev)
     (auto simp: fetcher_settled_no_fetch fetcher_connectedCallback_def fetcher_getData_def
        handleBadgeClick_def handleMouseOver_def handleMouseOut_def handlePopOverCancel_def
        on_flags_def split: jsopt.splits)

lemma fetcher_run_no_fetch:
  "filter is_shared_fetch (fetcher_effects (foldl fetcher_step c evs)) =
     filter is_shared_fetch (fetcher_effects c)"
  by (induction evs arbitrary: c) (simp_all add: fetcher_step_no_fetch)

text \<open>
  Claim C5. The first run of a parent makes the catalog call once, and a refresh makes it
  once more. When the call has resolved, every child gets the \<^verbatim>\<open>sharedData\<close> of the result
  as its \<^verbatim>\<open>record\<close> and passes it to its own computation; a child makes no call when the
  result has no shared data. Whatever happens to a child, it never makes the catalog call
  itself.
\<close>

theorem shared_data_fetched_once:
  "flags_run (new_RecordFlags rid obj) [FlagsConnected newID, CatalogSettled (Resolved (JsVal r))] =
     Inr \<lparr>recordId = rid, objectApiName = obj, haveFlags = True, haveErrors = False,
          listOfActiveMdt = fetchers r, existingFlag = [], sharedRecord = sharedData r,
          refreshHandlerID = JsVal newID,
          flags_effects = [Apex_getFetchers rid obj, RegisterRefreshHandler, ConsoleLog (JsVal r)]\<rparr>
   \<and> flags_effects (handleRefresh s) =
       flags_effects s @ [Apex_getFetchers (recordId s) (objectApiName s)]
   \<and> map fetcher_effects
        (render_children
          \<lparr>recordId = rid, objectApiName = obj, haveFlags = True, haveErrors = False,
           listOfActiveMdt = fetchers r, existingFlag = [], sharedRecord = sharedData r,
           refreshHandlerID = JsVal newID,
           flags_effects = [Apex_getFetchers rid obj, RegisterRefreshHandler, ConsoleLog (JsVal r)]\<rparr>)
     = map (\<lambda>m. if truthy_obj (sharedData r)
                 then [Apex_invokeFetcher (sharedData r) (JsVal m)] else [])
           (fetchers r)
   \<and> filter is_shared_fetch (fetcher_effects (foldl fetcher_step c evs)) =
       filter is_shared_fetch (fetcher_effects c)"
proof -
  have "fetcher_effects (fetcher_connectedCallback (new_RecordFlagFetcher JsUndefined d (JsVal m))) =
          (if truthy_obj d then [Apex_invokeFetcher d (JsVal m)] else [])" for d :: "sobject jsopt" and m
    by (simp add: fetcher_connectedCallback_def fetcher_getData_def new_RecordFlagFetcher_def)
  then show ?thesis
    by (simp add: flags_run_def flags_connectedCallback_def flags_getData_def new_RecordFlags_def
          flags_settled_def flags_then_def handleRefresh_def render_children_def
          fetcher_run_no_fetch Let_def)
qed

end
